theory Spec2Isabelle
  imports Main "HOL-Library.Word" "HOL-Library.Code_Target_Numeral"
begin

unbundle bit_operations_syntax

section \<open>Mesh validation (DirectXMeshValidate.cpp)\<close>

subsection \<open>Status codes, flags, diagnostics\<close>

text \<open>
  The \<^verbatim>\<open>HRESULT\<close> values the file returns. \<open>ERROR_ARITHMETIC_OVERFLOW\<close> stands for
  \<^verbatim>\<open>HRESULT_FROM_WIN32( ERROR_ARITHMETIC_OVERFLOW )\<close>. \<^verbatim>\<open>FAILED(hr)\<close> holds of every
  value but \<open>S_OK\<close>.
\<close>

datatype HRESULT = S_OK | E_FAIL | E_INVALIDARG | E_OUTOFMEMORY | ERROR_ARITHMETIC_OVERFLOW

definition FAILED :: "HRESULT \<Rightarrow> bool" where
  "FAILED hr = (hr \<noteq> S_OK)"

type_synonym DWORD = "32 word"
type_synonym uint32_t = "32 word"
type_synonym uint16_t = "16 word"

text \<open>
  Modelled from the spec: the header that declares the flag bits and the 32-bit sentinel
  (\<^verbatim>\<open>DirectXMesh.h\<close>, \<^verbatim>\<open>DirectXMeshP.h\<close>) is not among the sources. The spec names three
  recognised bits of the mask (check-degenerate, check-backfacing, check-bowties) and an
  all-bits-set sentinel. The three bits are distinct single bits; no proof below depends on
  which ones.
\<close>

definition VALIDATE_BACKFACING :: DWORD where
  "VALIDATE_BACKFACING = 0x1"

definition VALIDATE_BOWTIES :: DWORD where
  "VALIDATE_BOWTIES = 0x2"

definition VALIDATE_DEGENERATE :: DWORD where
  "VALIDATE_DEGENERATE = 0x4"

definition UNUSED32 :: uint32_t where
  "UNUSED32 = - 1"

text \<open>\<^verbatim>\<open>flags & BIT\<close> used as a condition.\<close>

definition flag_set :: "DWORD \<Rightarrow> DWORD \<Rightarrow> bool" where
  "flag_set flags b = (flags AND b \<noteq> 0)"

text \<open>
  Every \<^verbatim>\<open>*msgs += ...\<close> of the file appends one of these texts. The numbers are the
  arguments of the \<^verbatim>\<open>swprintf_s\<close> call, in its order, as the unsigned values \<^verbatim>\<open>%u\<close> and
  \<^verbatim>\<open>%Iu\<close> print.
  \<^item> \<open>MissingAdjacencyBackfacing\<close>: "Missing adjacency information required to check for BACKFACING"
  \<^item> \<open>InvalidIndex i face\<close>: "An invalid index value (i) was found on face face"
  \<^item> \<open>InvalidNeighbor j face\<close>: "An invalid neighbor index value (j) was found on face face"
  \<^item> \<open>RepeatedPoint bad face\<close>: "A point (bad) was found more than once in triangle face"
  \<^item> \<open>RepeatedNeighbor bad face\<close>: "A neighbor triangle (bad) was found more than once on triangle face ..."
  \<^item> \<open>MissingAdjacencyBowties\<close>: "Missing adjacency information required to check for BOWTIES"
  \<^item> \<open>BowtieExplanation\<close>: "A bowtie was found.  Bowties can be fixed by calling Clean ..."
  \<^item> \<open>BowtieFound j curFace other\<close>: "Bowtie found around vertex j shared by faces curFace and other"
\<close>

datatype msg =
    MissingAdjacencyBackfacing
  | InvalidIndex nat nat
  | InvalidNeighbor nat nat
  | RepeatedPoint nat nat
  | RepeatedNeighbor nat nat
  | MissingAdjacencyBowties
  | BowtieExplanation
  | BowtieFound nat nat nat

text \<open>
  \<^verbatim>\<open>std::wstring* msgs\<close>: \<open>None\<close> is the null pointer, \<open>Some ms\<close> a string holding the
  appended texts \<open>ms\<close>, oldest first.
\<close>

type_synonym sink = "msg list option"

text \<open>A loop body either goes on with a new state or leaves the function.\<close>

datatype ('s, 'r) flow = Next 's | Exit 'r

subsection \<open>ValidateIndices\<close>

text \<open>
  The state of the scan is the local \<^verbatim>\<open>result\<close> and the sink. Every violation runs
  \<^verbatim>\<open>if ( !msgs ) return E_FAIL;  result = false;  *msgs += buff;\<close>
\<close>

type_synonym vstate = "bool \<times> sink"

definition report :: "msg \<Rightarrow> vstate \<Rightarrow> (vstate, HRESULT \<times> sink) flow" where
  "report m st =
     (case snd st of
        None \<Rightarrow> Exit (E_FAIL, None)
      | Some ms \<Rightarrow> Next (False, Some (ms @ [m])))"

text \<open>Lines 45-56: the range check of one vertex index.\<close>

definition check_index ::
  "'a::len word list \<Rightarrow> nat \<Rightarrow> nat \<Rightarrow> nat \<Rightarrow> vstate \<Rightarrow> (vstate, HRESULT \<times> sink) flow" where
  "check_index indices nVerts face point st =
     (let i = indices ! (face * 3 + point) in
      if nVerts \<le> unat i \<and> i \<noteq> - 1 then report (InvalidIndex (unat i) face) st
      else Next st)"

text \<open>Lines 58-72: the range check of one neighbor index, when there is adjacency.\<close>

definition check_neighbor ::
  "uint32_t list option \<Rightarrow> nat \<Rightarrow> nat \<Rightarrow> nat \<Rightarrow> vstate \<Rightarrow> (vstate, HRESULT \<times> sink) flow" where
  "check_neighbor adjacency nFaces face point st =
     (case adjacency of
        None \<Rightarrow> Next st
      | Some adj \<Rightarrow>
          (let j = adj ! (face * 3 + point) in
           if nFaces \<le> unat j \<and> j \<noteq> UNUSED32 then report (InvalidNeighbor (unat j) face) st
           else Next st))"

text \<open>Lines 43-73: \<^verbatim>\<open>for( size_t point = 0; point < 3; ++point )\<close>.\<close>

function check_points ::
  "'a::len word list \<Rightarrow> nat \<Rightarrow> nat \<Rightarrow> uint32_t list option \<Rightarrow> nat \<Rightarrow> nat \<Rightarrow> vstate
     \<Rightarrow> (vstate, HRESULT \<times> sink) flow" where
  "check_points indices nFaces nVerts adjacency face point st =
     (if point < 3 then
        (case check_index indices nVerts face point st of
           Exit r \<Rightarrow> Exit r
         | Next st1 \<Rightarrow>
            (case check_neighbor adjacency nFaces face point st1 of
               Exit r \<Rightarrow> Exit r
             | Next st2 \<Rightarrow> check_points indices nFaces nVerts adjacency face (Suc point) st2))
      else Next st)"
  by pat_completeness auto
termination
  by (relation "measure (\<lambda>(indices, nFaces, nVerts, adjacency, face, point, st). 3 - point)") auto

declare check_points.simps [simp del]

text \<open>Lines 80-82 (and 184-186): two of the three indices of the face are equal.\<close>

definition degenerate :: "'a::len word list \<Rightarrow> nat \<Rightarrow> bool" where
  "degenerate indices face =
     (let i0 = indices ! (face * 3); i1 = indices ! (face * 3 + 1); i2 = indices ! (face * 3 + 2)
      in i0 = i1 \<or> i0 = i2 \<or> i1 = i2)"

text \<open>Lines 91-97: the point named in the message.\<close>

definition degenerate_bad :: "'a::len word list \<Rightarrow> nat \<Rightarrow> 'a word" where
  "degenerate_bad indices face =
     (let i0 = indices ! (face * 3); i1 = indices ! (face * 3 + 1); i2 = indices ! (face * 3 + 2)
      in if i0 = i1 then i0 else if i1 = i2 then i2 else i0)"

text \<open>Lines 114-116 and 123-129: a neighbor that occurs twice, and the one named.\<close>

definition duplicate_neighbor :: "uint32_t list \<Rightarrow> nat \<Rightarrow> bool" where
  "duplicate_neighbor adj face =
     (let j0 = adj ! (face * 3); j1 = adj ! (face * 3 + 1); j2 = adj ! (face * 3 + 2)
      in (j0 = j1 \<and> j0 \<noteq> UNUSED32) \<or> (j0 = j2 \<and> j0 \<noteq> UNUSED32) \<or> (j1 = j2 \<and> j1 \<noteq> UNUSED32))"

definition duplicate_bad :: "uint32_t list \<Rightarrow> nat \<Rightarrow> uint32_t" where
  "duplicate_bad adj face =
     (let j0 = adj ! (face * 3); j1 = adj ! (face * 3 + 1); j2 = adj ! (face * 3 + 2)
      in if j0 = j1 \<and> j0 \<noteq> UNUSED32 then j0
         else if j0 = j2 \<and> j0 \<noteq> UNUSED32 then j0
         else j1)"

text \<open>Lines 107-136: the duplicate-neighbor check of a face that is not degenerate.\<close>

definition check_duplicate ::
  "uint32_t list option \<Rightarrow> DWORD \<Rightarrow> nat \<Rightarrow> vstate \<Rightarrow> (vstate, HRESULT \<times> sink) flow" where
  "check_duplicate adjacency flags face st =
     (if flag_set flags VALIDATE_BACKFACING then
        (case adjacency of
           None \<Rightarrow> Next st
         | Some adj \<Rightarrow>
             if duplicate_neighbor adj face
             then report (RepeatedNeighbor (unat (duplicate_bad adj face)) face) st
             else Next st)
      else Next st)"

text \<open>Lines 75-136: what the loop body does after the three corners.\<close>

definition check_face ::
  "'a::len word list \<Rightarrow> uint32_t list option \<Rightarrow> DWORD \<Rightarrow> nat \<Rightarrow> vstate
     \<Rightarrow> (vstate, HRESULT \<times> sink) flow" where
  "check_face indices adjacency flags face st =
     (if degenerate indices face then
        (if flag_set flags VALIDATE_DEGENERATE
         then report (RepeatedPoint (unat (degenerate_bad indices face)) face) st
         else Next st)
      else check_duplicate adjacency flags face st)"

text \<open>Lines 41-137: \<^verbatim>\<open>for( size_t face = 0; face < nFaces; ++face )\<close>, from \<open>face\<close> on.\<close>

function ValidateIndices_faces ::
  "'a::len word list \<Rightarrow> nat \<Rightarrow> nat \<Rightarrow> uint32_t list option \<Rightarrow> DWORD \<Rightarrow> nat \<Rightarrow> vstate
     \<Rightarrow> (vstate, HRESULT \<times> sink) flow" where
  "ValidateIndices_faces indices nFaces nVerts adjacency flags face st =
     (if face < nFaces then
        (case check_points indices nFaces nVerts adjacency face 0 st of
           Exit r \<Rightarrow> Exit r
         | Next st1 \<Rightarrow>
            (case check_face indices adjacency flags face st1 of
               Exit r \<Rightarrow> Exit r
             | Next st2 \<Rightarrow>
                 ValidateIndices_faces indices nFaces nVerts adjacency flags (Suc face) st2))
      else Next st)"
  by pat_completeness auto
termination
  by (relation "measure (\<lambda>(indices, nFaces, nVerts, adjacency, flags, face, st). nFaces - face)")
     auto

declare ValidateIndices_faces.simps [simp del]

text \<open>
  \<^verbatim>\<open>ValidateIndices\<close>, lines 26-140. The result is the returned \<^verbatim>\<open>HRESULT\<close> and the sink
  as the call leaves it. \<open>nFaces\<close> and \<open>nVerts\<close> are \<^verbatim>\<open>size_t\<close>; \<open>face * 3 + point\<close> stays
  below \<open>nFaces * 3\<close>, which the entry points bound by \<open>0xFFFFFFFF\<close>.
\<close>

definition ValidateIndices ::
  "'a::len word list \<Rightarrow> nat \<Rightarrow> nat \<Rightarrow> uint32_t list option \<Rightarrow> DWORD \<Rightarrow> sink
     \<Rightarrow> HRESULT \<times> sink" where
  "ValidateIndices indices nFaces nVerts adjacency flags msgs =
     (if flag_set flags VALIDATE_BACKFACING \<and> adjacency = None then
        (E_INVALIDARG, map_option (\<lambda>ms. ms @ [MissingAdjacencyBackfacing]) msgs)
      else
        (case ValidateIndices_faces indices nFaces nVerts adjacency flags 0 (True, msgs) of
           Exit r \<Rightarrow> r
         | Next (result, msgs1) \<Rightarrow> (if result then S_OK else E_FAIL, msgs1)))"

subsection \<open>ValidateIndices and the entries it reads\<close>

text \<open>
  The definitions above read the arrays with \<open>!\<close>, which is meant for arrays of the
  promised \<open>nFaces * 3\<close> entries. Which entries a call reads shows on arrays that may be
  shorter: reading \<^verbatim>\<open>indices[ k ]\<close> or \<^verbatim>\<open>adjacency[ k ]\<close> at a \<open>k\<close> that is no position of
  the array is undefined in C++, and ends the run here as \<open>ReadOutside\<close>. Each definition
  below is the one above of the same lines, run only when the entries it reads are there.
\<close>

datatype 'r run = Ran 'r | ReadOutside

definition reading ::
  "bool \<Rightarrow> (vstate, HRESULT \<times> sink) flow \<Rightarrow> (vstate, (HRESULT \<times> sink) run) flow" where
  "reading inside fl =
     (if inside then (case fl of Next st \<Rightarrow> Next st | Exit r \<Rightarrow> Exit (Ran r))
      else Exit ReadOutside)"

text \<open>
  Lines 43-73. Line 45 reads \<open>indices[ face*3 + point ]\<close>; line 60 reads
  \<open>adjacency[ face*3 + point ]\<close> when there is adjacency.
\<close>

function checked_points ::
  "'a::len word list \<Rightarrow> nat \<Rightarrow> nat \<Rightarrow> uint32_t list option \<Rightarrow> nat \<Rightarrow> nat \<Rightarrow> vstate
     \<Rightarrow> (vstate, (HRESULT \<times> sink) run) flow" where
  "checked_points indices nFaces nVerts adjacency face point st =
     (if point < 3 then
        (case reading (face * 3 + point < length indices)
                (check_index indices nVerts face point st) of
           Exit r \<Rightarrow> Exit r
         | Next st1 \<Rightarrow>
            (case reading (case adjacency of
                             None \<Rightarrow> True
                           | Some adj \<Rightarrow> face * 3 + point < length adj)
                    (check_neighbor adjacency nFaces face point st1) of
               Exit r \<Rightarrow> Exit r
             | Next st2 \<Rightarrow> checked_points indices nFaces nVerts adjacency face (Suc point) st2))
      else Next st)"
  by pat_completeness auto
termination
  by (relation "measure (\<lambda>(indices, nFaces, nVerts, adjacency, face, point, st). 3 - point)") auto

declare checked_points.simps [simp del]

text \<open>
  Lines 75-136. Lines 76-78 read the three indices of the face; lines 110-112 read its
  three neighbors, and run only for a face that is not degenerate, with the backfacing flag
  set and adjacency present.
\<close>

definition checked_face ::
  "'a::len word list \<Rightarrow> uint32_t list option \<Rightarrow> DWORD \<Rightarrow> nat \<Rightarrow> vstate
     \<Rightarrow> (vstate, (HRESULT \<times> sink) run) flow" where
  "checked_face indices adjacency flags face st =
     reading
       (face * 3 + 2 < length indices \<and>
        (\<not> degenerate indices face \<and> flag_set flags VALIDATE_BACKFACING \<longrightarrow>
           (case adjacency of None \<Rightarrow> True | Some adj \<Rightarrow> face * 3 + 2 < length adj)))
       (check_face indices adjacency flags face st)"

text \<open>Lines 41-137, from \<open>face\<close> on.\<close>

function checked_faces ::
  "'a::len word list \<Rightarrow> nat \<Rightarrow> nat \<Rightarrow> uint32_t list option \<Rightarrow> DWORD \<Rightarrow> nat \<Rightarrow> vstate
     \<Rightarrow> (vstate, (HRESULT \<times> sink) run) flow" where
  "checked_faces indices nFaces nVerts adjacency flags face st =
     (if face < nFaces then
        (case checked_points indices nFaces nVerts adjacency face 0 st of
           Exit r \<Rightarrow> Exit r
         | Next st1 \<Rightarrow>
            (case checked_face indices adjacency flags face st1 of
               Exit r \<Rightarrow> Exit r
             | Next st2 \<Rightarrow>
                 checked_faces indices nFaces nVerts adjacency flags (Suc face) st2))
      else Next st)"
  by pat_completeness auto
termination
  by (relation "measure (\<lambda>(indices, nFaces, nVerts, adjacency, flags, face, st). nFaces - face)")
     auto

declare checked_faces.simps [simp del]

text \<open>Lines 26-140.\<close>

definition ValidateIndices_checked ::
  "'a::len word list \<Rightarrow> nat \<Rightarrow> nat \<Rightarrow> uint32_t list option \<Rightarrow> DWORD \<Rightarrow> sink
     \<Rightarrow> (HRESULT \<times> sink) run" where
  "ValidateIndices_checked indices nFaces nVerts adjacency flags msgs =
     (if flag_set flags VALIDATE_BACKFACING \<and> adjacency = None then
        Ran (E_INVALIDARG, map_option (\<lambda>ms. ms @ [MissingAdjacencyBackfacing]) msgs)
      else
        (case checked_faces indices nFaces nVerts adjacency flags 0 (True, msgs) of
           Exit r \<Rightarrow> r
         | Next (result, msgs1) \<Rightarrow> Ran (if result then S_OK else E_FAIL, msgs1)))"

subsection \<open>The orbit iterator\<close>

text \<open>
  \<^verbatim>\<open>ValidateNoBowties\<close> walks the faces around a vertex with the class
  \<^verbatim>\<open>orbit_iterator<index_t>\<close> of \<^verbatim>\<open>DirectXMeshP.h\<close>, which is not among the sources. The
  detector is therefore modelled over any implementation of the six members it calls: the
  constructor (line 174), \<^verbatim>\<open>initialize\<close>, \<^verbatim>\<open>moveToCCW\<close> (its result is dropped), \<^verbatim>\<open>done\<close>,
  \<^verbatim>\<open>nextFace\<close> and \<^verbatim>\<open>getpoint\<close>. \<open>'i\<close> is \<^verbatim>\<open>index_t\<close>, \<open>'s\<close> the type of the object's fields.
\<close>

datatype WalkType = WALK_ALL | WALK_CW | WALK_CCW

record ('i, 's) orbit_iterator =
  construct :: "uint32_t list \<Rightarrow> 'i list \<Rightarrow> nat \<Rightarrow> 's"
  initialize :: "'s \<Rightarrow> uint32_t \<Rightarrow> 'i \<Rightarrow> WalkType \<Rightarrow> 's"
  moveToCCW :: "'s \<Rightarrow> 's"
  is_done :: "'s \<Rightarrow> bool"
  nextFace :: "'s \<Rightarrow> uint32_t \<times> 's"
  getpoint :: "'s \<Rightarrow> uint32_t"

subsection \<open>ValidateNoBowties\<close>

text \<open>
  The scratch tables of lines 159-172 and the two locals the loops change. \<open>faceSeen\<close> has
  \<open>nFaces * 3\<close> entries, the other three tables \<open>nVerts\<close> entries each.
\<close>

record 'i bowtie_state =
  faceSeen :: "bool list"
  faceIds :: "'i list"
  faceUsing :: "'i list"
  vertexBowtie :: "bool list"
  b_result :: bool
  b_msgs :: sink

text \<open>
  How a call ends: it returns a status and leaves the sink, or it touches scratch memory
  outside what it holds (\<open>OutOfBounds position size\<close>), which C++ leaves undefined: a
  per-vertex table at a position that is not below \<open>nVerts\<close>, or bytes beyond the buffer.
\<close>

datatype outcome = Returns HRESULT sink | OutOfBounds nat nat

text \<open>
  Lines 207-245: the body of \<^verbatim>\<open>while ( !ovi.done() )\<close>. \<open>j\<close> is the position used in
  \<open>faceIds\<close>, \<open>faceUsing\<close> and \<open>vertexBowtie\<close>; a \<open>j\<close> that is no position of these tables
  ends the run as \<open>OutOfBounds\<close>. \<open>index_t( face )\<close> is \<open>of_nat face\<close>, which drops the
  high bits.
\<close>

definition orbit_visit ::
  "('a::len word, 's) orbit_iterator \<Rightarrow> 'a word list \<Rightarrow> nat \<Rightarrow> nat \<Rightarrow> nat \<Rightarrow> 's
     \<Rightarrow> 'a word bowtie_state \<Rightarrow> ('s \<times> 'a word bowtie_state, outcome) flow" where
  "orbit_visit it indices nFaces nVerts face ovi st =
     (let curFace = unat (fst (nextFace it ovi)); ovi1 = snd (nextFace it ovi) in
      if nFaces \<le> curFace then Exit (Returns E_FAIL (b_msgs st))
      else
        (let curPoint = unat (getpoint it ovi1) in
         if 2 < curPoint then Exit (Returns E_FAIL (b_msgs st))
         else
           (let st1 = st\<lparr>faceSeen := (faceSeen st)[curFace * 3 + curPoint := True]\<rparr>;
                j = unat (indices ! (curFace * 3 + curPoint))
            in
              if nVerts \<le> j then Exit (OutOfBounds j nVerts)
              else if faceIds st1 ! j = - 1 then
                Next (ovi1, st1\<lparr>faceIds := (faceIds st1)[j := of_nat face],
                                faceUsing := (faceUsing st1)[j := of_nat curFace]\<rparr>)
              else if faceIds st1 ! j \<noteq> of_nat face \<and> \<not> vertexBowtie st1 ! j then
                (case b_msgs st1 of
                   None \<Rightarrow> Exit (Returns E_FAIL None)
                 | Some ms \<Rightarrow>
                     Next (ovi1,
                       st1\<lparr>b_msgs :=
                              Some ((if b_result st1 then ms @ [BowtieExplanation] else ms)
                                    @ [BowtieFound j curFace (unat (faceUsing st1 ! j))]),
                            b_result := False,
                            vertexBowtie := (vertexBowtie st1)[j := True]\<rparr>))
              else Next (ovi1, st1))))"

text \<open>
  Lines 205-246: \<^verbatim>\<open>while ( !ovi.done() )\<close>. The loop runs as long as the iterator says so;
  \<open>None\<close> is a walk that never ends.
\<close>

partial_function (option) orbit_walk ::
  "('a::len word, 's) orbit_iterator \<Rightarrow> 'a word list \<Rightarrow> nat \<Rightarrow> nat \<Rightarrow> nat \<Rightarrow> 's
     \<Rightarrow> 'a word bowtie_state \<Rightarrow> ('s \<times> 'a word bowtie_state, outcome) flow option" where
  "orbit_walk it indices nFaces nVerts face ovi st =
     (if is_done it ovi then Some (Next (ovi, st))
      else
        (case orbit_visit it indices nFaces nVerts face ovi st of
           Exit r \<Rightarrow> Some (Exit r)
         | Next os \<Rightarrow> orbit_walk it indices nFaces nVerts face (fst os) (snd os)))"

declare orbit_walk.simps [code]

text \<open>Lines 197-246: one corner of a face that is not degenerate.\<close>

definition bowtie_point ::
  "('a::len word, 's) orbit_iterator \<Rightarrow> 'a word list \<Rightarrow> nat \<Rightarrow> nat \<Rightarrow> nat \<Rightarrow> nat
     \<Rightarrow> 's \<times> 'a word bowtie_state \<Rightarrow> ('s \<times> 'a word bowtie_state, outcome) flow option" where
  "bowtie_point it indices nFaces nVerts face point os =
     (let ovi = fst os; st = snd os in
      if faceSeen st ! (face * 3 + point) then Some (Next (ovi, st))
      else
        (let st1 = st\<lparr>faceSeen := (faceSeen st)[face * 3 + point := True]\<rparr>;
             i = indices ! (face * 3 + point);
             ovi1 = initialize it ovi (of_nat face) i WALK_ALL;
             ovi2 = moveToCCW it ovi1
         in orbit_walk it indices nFaces nVerts face ovi2 st1))"

text \<open>Lines 195-247: \<^verbatim>\<open>for( size_t point = 0; point < 3; ++point )\<close>.\<close>

function bowtie_points ::
  "('a::len word, 's) orbit_iterator \<Rightarrow> 'a word list \<Rightarrow> nat \<Rightarrow> nat \<Rightarrow> nat \<Rightarrow> nat
     \<Rightarrow> 's \<times> 'a word bowtie_state \<Rightarrow> ('s \<times> 'a word bowtie_state, outcome) flow option" where
  "bowtie_points it indices nFaces nVerts face point os =
     (if point < 3 then
        (case bowtie_point it indices nFaces nVerts face point os of
           None \<Rightarrow> None
         | Some (Exit r) \<Rightarrow> Some (Exit r)
         | Some (Next os1) \<Rightarrow> bowtie_points it indices nFaces nVerts face (Suc point) os1)
      else Some (Next os))"
  by pat_completeness auto
termination
  by (relation "measure (\<lambda>(it, indices, nFaces, nVerts, face, point, os). 3 - point)") auto

declare bowtie_points.simps [simp del]

text \<open>Lines 178-248: \<^verbatim>\<open>for( uint32_t face = 0; face < nFaces; ++face )\<close>, from \<open>face\<close> on.\<close>

function bowtie_faces ::
  "('a::len word, 's) orbit_iterator \<Rightarrow> 'a word list \<Rightarrow> nat \<Rightarrow> nat \<Rightarrow> nat
     \<Rightarrow> 's \<times> 'a word bowtie_state \<Rightarrow> ('s \<times> 'a word bowtie_state, outcome) flow option" where
  "bowtie_faces it indices nFaces nVerts face os =
     (if face < nFaces then
        (if degenerate indices face then
           bowtie_faces it indices nFaces nVerts (Suc face)
             (fst os, (snd os)\<lparr>faceSeen := (faceSeen (snd os))
                 [face * 3 := True, face * 3 + 1 := True, face * 3 + 2 := True]\<rparr>)
         else
           (case bowtie_points it indices nFaces nVerts face 0 os of
              None \<Rightarrow> None
            | Some (Exit r) \<Rightarrow> Some (Exit r)
            | Some (Next os1) \<Rightarrow> bowtie_faces it indices nFaces nVerts (Suc face) os1))
      else Some (Next os))"
  by pat_completeness auto
termination
  by (relation "measure (\<lambda>(it, indices, nFaces, nVerts, face, os). nFaces - face)") auto

declare bowtie_faces.simps [simp del]

text \<open>Lines 169-172: the tables after the four \<^verbatim>\<open>memset\<close> calls, with \<open>result = true\<close>.\<close>

definition bowtie_init :: "nat \<Rightarrow> nat \<Rightarrow> sink \<Rightarrow> 'a::len word bowtie_state" where
  "bowtie_init nFaces nVerts msgs =
     \<lparr>faceSeen = replicate (nFaces * 3) False,
      faceIds = replicate nVerts (- 1),
      faceUsing = replicate nVerts 0,
      vertexBowtie = replicate nVerts False,
      b_result = True,
      b_msgs = msgs\<rparr>"

text \<open>
  Line 159: the size of the scratch buffer, \<open>sizeof(index_t)\<close> being the width in bytes and
  \<open>sizeof(bool)\<close> one. The sum is taken in \<^verbatim>\<open>size_t\<close>, of 64 bits, and wraps.
\<close>

definition tsize :: "'a::len word list \<Rightarrow> nat \<Rightarrow> nat \<Rightarrow> nat" where
  "tsize indices nFaces nVerts =
     ((1 * nFaces * 3) + ((LENGTH('a) div 8) * nVerts * 2) + (1 * nVerts)) mod 2 ^ 64"

text \<open>Lines 169-172: the bytes the four \<^verbatim>\<open>memset\<close> calls fill, from the start of the buffer.\<close>

definition tables_size :: "'a::len word list \<Rightarrow> nat \<Rightarrow> nat \<Rightarrow> nat" where
  "tables_size indices nFaces nVerts =
     (1 * nFaces * 3) + ((LENGTH('a) div 8) * nVerts) + ((LENGTH('a) div 8) * nVerts)
       + (1 * nVerts)"

text \<open>
  \<^verbatim>\<open>ValidateNoBowties\<close>, lines 146-251; \<open>bowtie_finish\<close> is line 250 after the loops, or
  the return taken inside them. Where the sum of line 159 wrapped, the buffer is shorter
  than the tables and lines 169-172 write beyond it. \<open>alloc n\<close> tells whether
  \<^verbatim>\<open>new (std::nothrow) uint8_t[ n ]\<close> yields memory. \<open>face\<close> is a \<^verbatim>\<open>uint32_t\<close> here;
  \<open>face * 3 + 2\<close> stays below \<open>nFaces * 3\<close>, which the entry points bound by \<open>0xFFFFFFFF\<close>.
\<close>

definition bowtie_finish ::
  "('s \<times> 'a word bowtie_state, outcome) flow option \<Rightarrow> outcome option" where
  "bowtie_finish fl =
     (case fl of
        None \<Rightarrow> None
      | Some (Exit r) \<Rightarrow> Some r
      | Some (Next os) \<Rightarrow>
          Some (Returns (if b_result (snd os) then S_OK else E_FAIL) (b_msgs (snd os))))"

definition ValidateNoBowties ::
  "('a::len word, 's) orbit_iterator \<Rightarrow> (nat \<Rightarrow> bool) \<Rightarrow> 'a word list \<Rightarrow> nat \<Rightarrow> nat
     \<Rightarrow> uint32_t list option \<Rightarrow> sink \<Rightarrow> outcome option" where
  "ValidateNoBowties it alloc indices nFaces nVerts adjacency msgs =
     (case adjacency of
        None \<Rightarrow> Some (Returns E_INVALIDARG (map_option (\<lambda>ms. ms @ [MissingAdjacencyBowties]) msgs))
      | Some adj \<Rightarrow>
          if \<not> alloc (tsize indices nFaces nVerts) then Some (Returns E_OUTOFMEMORY msgs)
          else if tsize indices nFaces nVerts < tables_size indices nFaces nVerts then
            Some (OutOfBounds (tables_size indices nFaces nVerts) (tsize indices nFaces nVerts))
          else
            bowtie_finish
              (bowtie_faces it indices nFaces nVerts 0
                 (construct it adj indices nFaces, bowtie_init nFaces nVerts msgs)))"

subsection \<open>The entry points\<close>

text \<open>
  \<^verbatim>\<open>Validate\<close>, lines 264-288 and 293-317: the two bodies differ in the index type only.
  \<open>indices = None\<close> is the null pointer. \<^verbatim>\<open>uint64_t(nFaces) * 3\<close> is a 64-bit product.
\<close>

definition Validate ::
  "('a::len word, 's) orbit_iterator \<Rightarrow> (nat \<Rightarrow> bool) \<Rightarrow> 'a word list option \<Rightarrow> nat \<Rightarrow> nat
     \<Rightarrow> uint32_t list option \<Rightarrow> DWORD \<Rightarrow> sink \<Rightarrow> outcome option" where
  "Validate it alloc indices nFaces nVerts adjacency flags msgs =
     (case indices of
        None \<Rightarrow> Some (Returns E_INVALIDARG msgs)
      | Some idx \<Rightarrow>
          if nFaces = 0 \<or> nVerts = 0 then Some (Returns E_INVALIDARG msgs)
          else if 0xFFFFFFFF < (nFaces * 3) mod 2 ^ 64 then
            Some (Returns ERROR_ARITHMETIC_OVERFLOW msgs)
          else
            (let cleared = map_option (\<lambda>ms. []) msgs;
                 r = ValidateIndices idx nFaces nVerts adjacency flags cleared
             in
               if FAILED (fst r) then Some (Returns (fst r) (snd r))
               else if flag_set flags VALIDATE_BOWTIES then
                 (case ValidateNoBowties it alloc idx nFaces nVerts adjacency (snd r) of
                    None \<Rightarrow> None
                  | Some (OutOfBounds p n) \<Rightarrow> Some (OutOfBounds p n)
                  | Some (Returns hr msgs2) \<Rightarrow>
                      if FAILED hr then Some (Returns hr msgs2) else Some (Returns S_OK msgs2))
               else Some (Returns S_OK (snd r))))"

definition Validate16 ::
  "(uint16_t, 's) orbit_iterator \<Rightarrow> (nat \<Rightarrow> bool) \<Rightarrow> uint16_t list option \<Rightarrow> nat \<Rightarrow> nat
     \<Rightarrow> uint32_t list option \<Rightarrow> DWORD \<Rightarrow> sink \<Rightarrow> outcome option" where
  "Validate16 = Validate"

definition Validate32 ::
  "(uint32_t, 's) orbit_iterator \<Rightarrow> (nat \<Rightarrow> bool) \<Rightarrow> uint32_t list option \<Rightarrow> nat \<Rightarrow> nat
     \<Rightarrow> uint32_t list option \<Rightarrow> DWORD \<Rightarrow> sink \<Rightarrow> outcome option" where
  "Validate32 = Validate"

subsection \<open>An orbit iterator after the spec\<close>

text \<open>
  Modelled from the spec: \<^verbatim>\<open>orbit_iterator\<close> (\<^verbatim>\<open>DirectXMeshP.h\<close>) is missing. This
  instance follows section 4.2 of the spec, and serves where a theorem below runs the
  detector on a concrete mesh.
  \<^item> State: the current face, the corner of the current face that holds the pivot vertex,
    the direction asked for, and a done flag; with them the mesh, the starting face and
    the pivot (given at construction and initialization), the direction the walk goes at
    the moment, and the corner of the face handed out last.
  \<^item> Initialization locates the corner of the starting face that holds the pivot.
  \<^item> A step looks up the adjacency entry of the edge between the pivot's corner and the
    next corner in the direction of the walk. The entry of an edge is the one at the
    edge's start corner: entry \<open>c\<close> clockwise, entry \<open>(c + 2) mod 3\<close> counter-clockwise.
    At the sentinel a walk in direction "all" that still goes clockwise restarts from the
    starting face in the opposite direction; any other walk ends. The walk also ends when
    it is back at the starting face. Otherwise it moves to the neighbor and locates the
    pivot there.
  \<^item> Failure mode: a neighbor that is no face of the mesh, or does not hold the pivot, gets
    the corner \<open>3\<close>, which is no corner; the walk does not go on from there.
  \<open>nextFace\<close> hands out the current face and then steps; \<open>getpoint\<close> is the corner of the
  face handed out. The spec describes no step of its own for \<open>moveToCCW\<close>: a walk in
  direction "all" covers both directions from the face it starts at.
\<close>

record 'i orbit =
  o_adjacency :: "uint32_t list"
  o_indices :: "'i list"
  o_nFaces :: nat
  o_start :: uint32_t
  o_pivot :: "'i"
  o_face :: uint32_t
  o_corner :: uint32_t
  o_point :: uint32_t
  o_direction :: WalkType
  o_clockwise :: bool
  o_done :: bool

definition find_corner :: "'i list \<Rightarrow> nat \<Rightarrow> uint32_t \<Rightarrow> 'i \<Rightarrow> uint32_t" where
  "find_corner indices nFaces face pivot =
     (if nFaces \<le> unat face then 3
      else if indices ! (unat face * 3) = pivot then 0
      else if indices ! (unat face * 3 + 1) = pivot then 1
      else if indices ! (unat face * 3 + 2) = pivot then 2
      else 3)"

definition orbit_construct :: "uint32_t list \<Rightarrow> 'a::len word list \<Rightarrow> nat \<Rightarrow> 'a word orbit" where
  "orbit_construct adj indices nFaces =
     \<lparr>o_adjacency = adj, o_indices = indices, o_nFaces = nFaces,
      o_start = UNUSED32, o_pivot = - 1, o_face = UNUSED32, o_corner = 3, o_point = 3,
      o_direction = WALK_ALL, o_clockwise = True, o_done = True\<rparr>"

definition orbit_initialize :: "'i orbit \<Rightarrow> uint32_t \<Rightarrow> 'i \<Rightarrow> WalkType \<Rightarrow> 'i orbit" where
  "orbit_initialize s face pivot direction =
     s\<lparr>o_start := face, o_pivot := pivot, o_face := face,
       o_corner := find_corner (o_indices s) (o_nFaces s) face pivot,
       o_point := find_corner (o_indices s) (o_nFaces s) face pivot,
       o_direction := direction, o_clockwise := (direction \<noteq> WALK_CCW), o_done := False\<rparr>"

definition orbit_entry :: "'i orbit \<Rightarrow> nat" where
  "orbit_entry s =
     unat (o_face s) * 3 +
       (if o_clockwise s then unat (o_corner s) else (unat (o_corner s) + 2) mod 3)"

definition orbit_follow :: "'i orbit \<Rightarrow> 'i orbit" where
  "orbit_follow s =
     (let n = o_adjacency s ! orbit_entry s in
      if n = UNUSED32 \<or> n = o_start s then s\<lparr>o_done := True\<rparr>
      else s\<lparr>o_face := n, o_corner := find_corner (o_indices s) (o_nFaces s) n (o_pivot s)\<rparr>)"

definition orbit_step :: "'i orbit \<Rightarrow> 'i orbit" where
  "orbit_step s =
     (if o_nFaces s \<le> unat (o_face s) \<or> 2 < unat (o_corner s) then s\<lparr>o_done := True\<rparr>
      else if o_adjacency s ! orbit_entry s = UNUSED32 \<and> o_direction s = WALK_ALL \<and> o_clockwise s
      then orbit_follow
             (s\<lparr>o_face := o_start s,
                o_corner := find_corner (o_indices s) (o_nFaces s) (o_start s) (o_pivot s),
                o_clockwise := False\<rparr>)
      else orbit_follow s)"

definition orbit_nextFace :: "'i orbit \<Rightarrow> uint32_t \<times> 'i orbit" where
  "orbit_nextFace s = (o_face s, (orbit_step s)\<lparr>o_point := o_corner s\<rparr>)"

definition spec_orbit :: "('a::len word, 'a word orbit) orbit_iterator" where
  "spec_orbit =
     \<lparr>construct = orbit_construct,
      initialize = orbit_initialize,
      moveToCCW = (\<lambda>s. s),
      is_done = o_done,
      nextFace = orbit_nextFace,
      getpoint = o_point\<rparr>"

subsection \<open>The violations of a mesh, as the spec words them\<close>

text \<open>
  Section 4.1 of the spec, as functions of the mesh: what is wrong at a corner (a vertex
  index that is neither below \<open>nVerts\<close> nor the sentinel; with adjacency, a neighbor index
  that is neither below \<open>nFaces\<close> nor the sentinel), what is wrong with a face (its three
  corners in order, then the degenerate check when its flag is set; the duplicate-neighbor
  check only for a face that is not degenerate, with the backfacing flag set and adjacency
  present), and the faces in index order. These are compared with \<open>ValidateIndices\<close> below.
\<close>

definition spec_corner_violations ::
  "'a::len word list \<Rightarrow> nat \<Rightarrow> nat \<Rightarrow> uint32_t list option \<Rightarrow> nat \<Rightarrow> nat \<Rightarrow> msg list" where
  "spec_corner_violations indices nFaces nVerts adjacency face point =
     (let i = indices ! (face * 3 + point) in
      if unat i < nVerts \<or> i = - 1 then [] else [InvalidIndex (unat i) face]) @
     (case adjacency of
        None \<Rightarrow> []
      | Some adj \<Rightarrow>
          (let j = adj ! (face * 3 + point) in
           if unat j < nFaces \<or> j = UNUSED32 then [] else [InvalidNeighbor (unat j) face]))"

definition spec_face_violations ::
  "'a::len word list \<Rightarrow> nat \<Rightarrow> nat \<Rightarrow> uint32_t list option \<Rightarrow> DWORD \<Rightarrow> nat \<Rightarrow> msg list" where
  "spec_face_violations indices nFaces nVerts adjacency flags face =
     spec_corner_violations indices nFaces nVerts adjacency face 0 @
     spec_corner_violations indices nFaces nVerts adjacency face 1 @
     spec_corner_violations indices nFaces nVerts adjacency face 2 @
     (if degenerate indices face then
        (if flag_set flags VALIDATE_DEGENERATE
         then [RepeatedPoint (unat (degenerate_bad indices face)) face] else [])
      else
        (case adjacency of
           None \<Rightarrow> []
         | Some adj \<Rightarrow>
             if flag_set flags VALIDATE_BACKFACING \<and> duplicate_neighbor adj face
             then [RepeatedNeighbor (unat (duplicate_bad adj face)) face] else []))"

definition spec_violations ::
  "'a::len word list \<Rightarrow> nat \<Rightarrow> nat \<Rightarrow> uint32_t list option \<Rightarrow> DWORD \<Rightarrow> msg list" where
  "spec_violations indices nFaces nVerts adjacency flags =
     concat (map (spec_face_violations indices nFaces nVerts adjacency flags) [0..<nFaces])"

text \<open>
  A scan state takes in a list of violations the way the source does: nothing changes when
  there is none; without a sink the function returns \<open>E_FAIL\<close>; with a sink the texts are
  appended and \<open>result\<close> is cleared.
\<close>

definition absorb :: "msg list \<Rightarrow> vstate \<Rightarrow> (vstate, HRESULT \<times> sink) flow" where
  "absorb vs st =
     (if vs = [] then Next st
      else (case snd st of None \<Rightarrow> Exit (E_FAIL, None) | Some ms \<Rightarrow> Next (False, Some (ms @ vs))))"

text \<open>The texts a sink holds; a null sink holds none.\<close>

definition diagnostics :: "sink \<Rightarrow> msg list" where
  "diagnostics msgs = (case msgs of None \<Rightarrow> [] | Some ms \<Rightarrow> ms)"

text \<open>
  The caller's side of \<^verbatim>\<open>_In_reads_(nFaces*3)\<close> and \<^verbatim>\<open>_In_reads_opt_(nFaces*3)\<close>: the
  arrays hold \<open>nFaces * 3\<close> entries.
\<close>

definition arrays_ok :: "'x list \<Rightarrow> nat \<Rightarrow> uint32_t list option \<Rightarrow> bool" where
  "arrays_ok indices nFaces adjacency =
     (length indices = nFaces * 3 \<and>
      (case adjacency of None \<Rightarrow> True | Some adj \<Rightarrow> length adj = nFaces * 3))"

subsection \<open>Notions for the bowtie detector\<close>

text \<open>The number of "Bowtie found around vertex \<open>j\<close>" texts in a list of texts.\<close>

definition bowties_at :: "nat \<Rightarrow> msg list \<Rightarrow> nat" where
  "bowties_at j ms =
     length (filter (\<lambda>m. case m of BowtieFound v f g \<Rightarrow> v = j | _ \<Rightarrow> False) ms)"


text \<open>
  The invariant of the detector's loops, for a call that was given the sink \<open>sink0\<close>: the
  flag table keeps its size; a null sink stays null; a sink holds what it held, followed
  by the texts of this call, among which a vertex has a bowtie text only if its flag is set,
  and then only one.
\<close>

definition reported_once :: "sink \<Rightarrow> nat \<Rightarrow> 'i bowtie_state \<Rightarrow> bool" where
  "reported_once sink0 nVerts st =
     (length (vertexBowtie st) = nVerts \<and>
      (case sink0 of
         None \<Rightarrow> b_msgs st = None
       | Some ms \<Rightarrow>
           (\<exists>new. b_msgs st = Some (ms @ new) \<and>
              (\<forall>j. bowties_at j new \<le> 1 \<and>
                   (bowties_at j new = 1 \<longrightarrow> j < nVerts \<and> vertexBowtie st ! j)))))"

text \<open>The same of the sink a call leaves, and of the way a loop is left.\<close>

definition sink_once :: "sink \<Rightarrow> sink \<Rightarrow> bool" where
  "sink_once sink0 msgs1 =
     (case sink0 of
        None \<Rightarrow> msgs1 = None
      | Some ms \<Rightarrow> (\<exists>new. msgs1 = Some (ms @ new) \<and> (\<forall>j. bowties_at j new \<le> 1)))"

definition flow_once :: "sink \<Rightarrow> nat \<Rightarrow> ('s \<times> 'i bowtie_state, outcome) flow \<Rightarrow> bool" where
  "flow_once sink0 nVerts fl =
     (case fl of
        Next os \<Rightarrow> reported_once sink0 nVerts (snd os)
      | Exit (Returns hr msgs1) \<Rightarrow> sink_once sink0 msgs1
      | Exit (OutOfBounds p n) \<Rightarrow> True)"

subsection \<open>The two index widths\<close>

text \<open>
  Modelled from the spec: a mesh of 16-bit indices as a mesh of 32-bit indices, widened
  value for value, the 16-bit sentinel \<^verbatim>\<open>0xFFFF\<close> becoming the 32-bit sentinel
  \<^verbatim>\<open>0xFFFFFFFF\<close>.
\<close>

definition widen :: "uint16_t \<Rightarrow> uint32_t" where
  "widen i = (if i = - 1 then - 1 else ucast i)"

section \<open>Properties\<close>

subsection \<open>ValidateIndices finds the violations of the spec\<close>

lemma absorb_Nil: "absorb [] st = Next st"
  by (simp add: absorb_def)

lemma report_absorb: "report m st = absorb [m] st"
  by (simp add: report_def absorb_def)

lemma absorb_then:
  "(case absorb vs st of Exit r \<Rightarrow> Exit r | Next st1 \<Rightarrow> absorb ws st1) = absorb (vs @ ws) st"
  by (cases st) (auto simp: absorb_def split: option.splits)

lemma check_corner_absorb:
  "(case check_index indices nVerts face point st of
      Exit r \<Rightarrow> Exit r
    | Next st1 \<Rightarrow> check_neighbor adjacency nFaces face point st1)
   = absorb (spec_corner_violations indices nFaces nVerts adjacency face point) st"
proof -
  have a: "check_index indices nVerts face point st
      = absorb (let i = indices ! (face * 3 + point) in
                if unat i < nVerts \<or> i = - 1 then [] else [InvalidIndex (unat i) face]) st"
    by (auto simp: check_index_def Let_def report_absorb absorb_Nil)
  have b: "\<And>st1. check_neighbor adjacency nFaces face point st1
      = absorb (case adjacency of None \<Rightarrow> []
         | Some adj \<Rightarrow> (let j = adj ! (face * 3 + point) in
             if unat j < nFaces \<or> j = UNUSED32 then [] else [InvalidNeighbor (unat j) face])) st1"
    by (auto simp: check_neighbor_def Let_def report_absorb absorb_Nil split: option.splits)
  show ?thesis
    unfolding a b absorb_then spec_corner_violations_def ..
qed

lemma check_points_absorb:
  "check_points indices nFaces nVerts adjacency face point st
   = absorb (concat (map (spec_corner_violations indices nFaces nVerts adjacency face) [point..<3])) st"
proof (induction indices nFaces nVerts adjacency face point st rule: check_points.induct)
  case (1 indices nFaces nVerts adjacency face point st)
  show ?case
  proof (cases "point < 3")
    case False
    then show ?thesis by (subst check_points.simps) (simp add: absorb_Nil)
  next
    case True
    let ?c = "spec_corner_violations indices nFaces nVerts adjacency face"
    have step: "check_points indices nFaces nVerts adjacency face point st =
       (case (case check_index indices nVerts face point st of
                Exit r \<Rightarrow> Exit r
              | Next st1 \<Rightarrow> check_neighbor adjacency nFaces face point st1) of
          Exit r \<Rightarrow> Exit r
        | Next st2 \<Rightarrow> check_points indices nFaces nVerts adjacency face (Suc point) st2)"
      using True by (subst check_points.simps) (simp split: flow.splits)
    have ih: "\<And>st2. (case check_index indices nVerts face point st of
                Exit r \<Rightarrow> Exit r
              | Next st1 \<Rightarrow> check_neighbor adjacency nFaces face point st1) = Next st2 \<Longrightarrow>
        check_points indices nFaces nVerts adjacency face (Suc point) st2
          = absorb (concat (map ?c [Suc point..<3])) st2"
      using "1.IH" True by (auto split: flow.splits)
    have "check_points indices nFaces nVerts adjacency face point st =
       (case absorb (?c point) st of
          Exit r \<Rightarrow> Exit r
        | Next st2 \<Rightarrow> absorb (concat (map ?c [Suc point..<3])) st2)"
      unfolding step using ih by (simp add: check_corner_absorb split: flow.splits)
    also have "\<dots> = absorb (?c point @ concat (map ?c [Suc point..<3])) st"
      by (rule absorb_then)
    finally show ?thesis using True by (simp add: upt_conv_Cons)
  qed
qed

lemma upt_0_3: "[0..<3] = [0, 1, 2]"
  by (simp add: upt_conv_Cons)

lemma check_face_absorb:
  "check_face indices adjacency flags face st =
     absorb (if degenerate indices face then
        (if flag_set flags VALIDATE_DEGENERATE
         then [RepeatedPoint (unat (degenerate_bad indices face)) face] else [])
      else
        (case adjacency of
           None \<Rightarrow> []
         | Some adj \<Rightarrow>
             if flag_set flags VALIDATE_BACKFACING \<and> duplicate_neighbor adj face
             then [RepeatedNeighbor (unat (duplicate_bad adj face)) face] else [])) st"
  by (auto simp: check_face_def check_duplicate_def report_absorb absorb_Nil split: option.splits)

lemma face_body_absorb:
  "(case check_points indices nFaces nVerts adjacency face 0 st of
      Exit r \<Rightarrow> Exit r
    | Next st1 \<Rightarrow> check_face indices adjacency flags face st1)
   = absorb (spec_face_violations indices nFaces nVerts adjacency flags face) st"
  unfolding check_points_absorb check_face_absorb absorb_then
  by (simp add: spec_face_violations_def upt_0_3)

lemma ValidateIndices_faces_absorb:
  "ValidateIndices_faces indices nFaces nVerts adjacency flags face st
   = absorb (concat (map (spec_face_violations indices nFaces nVerts adjacency flags) [face..<nFaces])) st"
proof (induction indices nFaces nVerts adjacency flags face st rule: ValidateIndices_faces.induct)
  case (1 indices nFaces nVerts adjacency flags face st)
  show ?case
  proof (cases "face < nFaces")
    case False
    then show ?thesis by (subst ValidateIndices_faces.simps) (simp add: absorb_Nil)
  next
    case True
    let ?f = "spec_face_violations indices nFaces nVerts adjacency flags"
    let ?body = "case check_points indices nFaces nVerts adjacency face 0 st of
                   Exit r \<Rightarrow> Exit r
                 | Next st1 \<Rightarrow> check_face indices adjacency flags face st1"
    have step: "ValidateIndices_faces indices nFaces nVerts adjacency flags face st =
       (case ?body of
          Exit r \<Rightarrow> Exit r
        | Next st2 \<Rightarrow> ValidateIndices_faces indices nFaces nVerts adjacency flags (Suc face) st2)"
      using True by (subst ValidateIndices_faces.simps) (simp split: flow.splits)
    have ih: "\<And>st2. ?body = Next st2 \<Longrightarrow>
        ValidateIndices_faces indices nFaces nVerts adjacency flags (Suc face) st2
          = absorb (concat (map ?f [Suc face..<nFaces])) st2"
      using "1.IH" True by (auto split: flow.splits)
    have "ValidateIndices_faces indices nFaces nVerts adjacency flags face st =
       (case absorb (?f face) st of
          Exit r \<Rightarrow> Exit r
        | Next st2 \<Rightarrow> absorb (concat (map ?f [Suc face..<nFaces])) st2)"
      unfolding step using ih by (simp add: face_body_absorb split: flow.splits)
    also have "\<dots> = absorb (?f face @ concat (map ?f [Suc face..<nFaces])) st"
      by (rule absorb_then)
    finally show ?thesis using True by (simp add: upt_conv_Cons)
  qed
qed

lemma ValidateIndices_sink:
  assumes "flag_set flags VALIDATE_BACKFACING \<longrightarrow> adjacency \<noteq> None"
  shows "ValidateIndices indices nFaces nVerts adjacency flags (Some ms) =
     (if spec_violations indices nFaces nVerts adjacency flags = [] then S_OK else E_FAIL,
      Some (ms @ spec_violations indices nFaces nVerts adjacency flags))"
proof -
  have "ValidateIndices indices nFaces nVerts adjacency flags (Some ms) =
     (case absorb (spec_violations indices nFaces nVerts adjacency flags) (True, Some ms) of
        Exit r \<Rightarrow> r
      | Next (result, msgs1) \<Rightarrow> (if result then S_OK else E_FAIL, msgs1))"
    using assms
    by (auto simp: ValidateIndices_def ValidateIndices_faces_absorb spec_violations_def)
  then show ?thesis by (simp add: absorb_def)
qed

lemma ValidateIndices_no_sink:
  assumes "flag_set flags VALIDATE_BACKFACING \<longrightarrow> adjacency \<noteq> None"
  shows "ValidateIndices indices nFaces nVerts adjacency flags None =
     (if spec_violations indices nFaces nVerts adjacency flags = [] then S_OK else E_FAIL, None)"
proof -
  have "ValidateIndices indices nFaces nVerts adjacency flags None =
     (case absorb (spec_violations indices nFaces nVerts adjacency flags) (True, None) of
        Exit r \<Rightarrow> r
      | Next (result, msgs1) \<Rightarrow> (if result then S_OK else E_FAIL, msgs1))"
    using assms
    by (auto simp: ValidateIndices_def ValidateIndices_faces_absorb spec_violations_def)
  then show ?thesis by (simp add: absorb_def)
qed

lemma set_spec_violations:
  "set (spec_violations indices nFaces nVerts adjacency flags) =
     (\<Union>face\<in>{0..<nFaces}. set (spec_face_violations indices nFaces nVerts adjacency flags face))"
  by (simp add: spec_violations_def)

lemma spec_violations_Nil:
  "spec_violations indices nFaces nVerts adjacency flags = [] \<longleftrightarrow>
     (\<forall>face<nFaces. spec_face_violations indices nFaces nVerts adjacency flags face = [])"
  by (auto simp: spec_violations_def)

lemma spec_face_violations_cong:
  assumes "\<And>p. p < 3 \<Longrightarrow> indices' ! (face * 3 + p) = indices ! (face * 3 + p)"
    and "rel_option (\<lambda>a' a. \<forall>p<3. a' ! (face * 3 + p) = a ! (face * 3 + p)) adjacency' adjacency"
  shows "spec_face_violations indices' nFaces nVerts adjacency' flags face
       = spec_face_violations indices nFaces nVerts adjacency flags face"
proof -
  have i: "indices' ! (face * 3) = indices ! (face * 3)"
    "indices' ! (face * 3 + 1) = indices ! (face * 3 + 1)"
    "indices' ! (face * 3 + 2) = indices ! (face * 3 + 2)"
    using assms(1) [of 0] assms(1) [of 1] assms(1) [of 2] by simp_all
  show ?thesis
  proof (cases adjacency)
    case None
    then have "adjacency' = None" using assms(2) by (cases adjacency') simp_all
    then show ?thesis using None i
      by (simp add: spec_face_violations_def spec_corner_violations_def degenerate_def
          degenerate_bad_def)
  next
    case (Some a)
    then obtain a' where a': "adjacency' = Some a'"
      using assms(2) by (cases adjacency') simp_all
    have "\<forall>p<3. a' ! (face * 3 + p) = a ! (face * 3 + p)"
      using assms(2) Some a' by simp
    then have j: "a' ! (face * 3) = a ! (face * 3)"
      "a' ! (face * 3 + 1) = a ! (face * 3 + 1)"
      "a' ! (face * 3 + 2) = a ! (face * 3 + 2)"
      by (auto dest: spec [of _ 0] spec [of _ 1] spec [of _ 2])
    show ?thesis using Some a' i j
      by (simp add: spec_face_violations_def spec_corner_violations_def degenerate_def
          degenerate_bad_def duplicate_neighbor_def duplicate_bad_def)
  qed
qed

lemma take_eq_nth: "take n xs = take n ys \<Longrightarrow> k < n \<Longrightarrow> xs ! k = ys ! k"
  by (metis nth_take)

lemma reading_True_then:
  "(case reading True a of Exit r \<Rightarrow> Exit r | Next st1 \<Rightarrow> reading True (b st1))
     = reading True (case a of Exit r \<Rightarrow> Exit r | Next st1 \<Rightarrow> b st1)"
  by (cases a) (simp_all add: reading_def)

lemma checked_points_inside:
  assumes "face * 3 + 2 < length indices"
    and "case adjacency of None \<Rightarrow> True | Some adj \<Rightarrow> face * 3 + 2 < length adj"
  shows "checked_points indices nFaces nVerts adjacency face point st
       = reading True (check_points indices nFaces nVerts adjacency face point st)"
  using assms
proof (induction indices nFaces nVerts adjacency face point st rule: checked_points.induct)
  case (1 indices nFaces nVerts adjacency face point st)
  show ?case
  proof (cases "point < 3")
    case False
    then show ?thesis
      by (subst checked_points.simps, subst check_points.simps) (simp add: reading_def)
  next
    case True
    have g1: "face * 3 + point < length indices" using True "1.prems"(1) by simp
    have g2: "(case adjacency of None \<Rightarrow> True | Some adj \<Rightarrow> face * 3 + point < length adj)"
      using True "1.prems"(2) by (cases adjacency) simp_all
    have ih: "checked_points indices nFaces nVerts adjacency face (Suc point) st2
        = reading True (check_points indices nFaces nVerts adjacency face (Suc point) st2)"
      if "check_index indices nVerts face point st = Next st1"
        "check_neighbor adjacency nFaces face point st1 = Next st2" for st1 st2
      using "1.IH" [OF True, of st1 st2] that g1 g2 "1.prems" by (simp add: reading_def)
    show ?thesis
      apply (subst checked_points.simps, subst check_points.simps)
      using True g1 g2 ih
      by (auto simp: reading_def split: flow.splits)
  qed
qed

lemma checked_face_inside:
  assumes "face * 3 + 2 < length indices"
    and "case adjacency of None \<Rightarrow> True | Some adj \<Rightarrow> face * 3 + 2 < length adj"
  shows "checked_face indices adjacency flags face st
       = reading True (check_face indices adjacency flags face st)"
  using assms by (cases adjacency) (simp_all add: checked_face_def)

lemma checked_body_inside:
  assumes "face * 3 + 2 < length indices"
    and "case adjacency of None \<Rightarrow> True | Some adj \<Rightarrow> face * 3 + 2 < length adj"
  shows "(case checked_points indices nFaces nVerts adjacency face 0 st of
            Exit r \<Rightarrow> Exit r
          | Next st1 \<Rightarrow> checked_face indices adjacency flags face st1)
       = reading True (absorb (spec_face_violations indices nFaces nVerts adjacency flags face) st)"
  unfolding checked_points_inside [OF assms] checked_face_inside [OF assms]
    reading_True_then face_body_absorb ..

lemma checked_faces_step:
  "face < nFaces \<Longrightarrow>
   checked_faces indices nFaces nVerts adjacency flags face st =
     (case (case checked_points indices nFaces nVerts adjacency face 0 st of
              Exit r \<Rightarrow> Exit r
            | Next st1 \<Rightarrow> checked_face indices adjacency flags face st1) of
        Exit r \<Rightarrow> Exit r
      | Next st2 \<Rightarrow> checked_faces indices nFaces nVerts adjacency flags (Suc face) st2)"
  by (subst checked_faces.simps) (simp split: flow.splits)

lemma ValidateIndices_faces_step:
  "face < nFaces \<Longrightarrow>
   ValidateIndices_faces indices nFaces nVerts adjacency flags face st =
     (case absorb (spec_face_violations indices nFaces nVerts adjacency flags face) st of
        Exit r \<Rightarrow> Exit r
      | Next st2 \<Rightarrow> ValidateIndices_faces indices nFaces nVerts adjacency flags (Suc face) st2)"
  by (subst ValidateIndices_faces.simps) (simp add: face_body_absorb [symmetric] split: flow.splits)

lemma checked_faces_inside:
  assumes "arrays_ok indices nFaces adjacency"
  shows "checked_faces indices nFaces nVerts adjacency flags face st
       = reading True (ValidateIndices_faces indices nFaces nVerts adjacency flags face st)"
  using assms
proof (induction "nFaces - face" arbitrary: face st)
  case 0
  then have "\<not> face < nFaces" by simp
  then show ?case
    by (subst checked_faces.simps, subst ValidateIndices_faces.simps) (simp add: reading_def)
next
  case (Suc n)
  then have lt: "face < nFaces" by simp
  have in1: "face * 3 + 2 < length indices"
    and in2: "case adjacency of None \<Rightarrow> True | Some adj \<Rightarrow> face * 3 + 2 < length adj"
    using Suc.prems lt by (auto simp: arrays_ok_def split: option.splits)
  have ih: "checked_faces indices nFaces nVerts adjacency flags (Suc face) st2
       = reading True (ValidateIndices_faces indices nFaces nVerts adjacency flags (Suc face) st2)"
    for st2
    using Suc.hyps(1) [of "Suc face" st2] Suc.hyps(2) Suc.prems by simp
  show ?case
    unfolding checked_faces_step [OF lt] ValidateIndices_faces_step [OF lt]
      checked_body_inside [OF in1 in2] ih
    by (cases "absorb (spec_face_violations indices nFaces nVerts adjacency flags face) st")
      (simp_all add: reading_def)
qed

lemma ValidateIndices_checked_inside:
  assumes "arrays_ok indices nFaces adjacency"
  shows "ValidateIndices_checked indices nFaces nVerts adjacency flags msgs
       = Ran (ValidateIndices indices nFaces nVerts adjacency flags msgs)"
  unfolding ValidateIndices_checked_def ValidateIndices_def checked_faces_inside [OF assms]
  by (cases "ValidateIndices_faces indices nFaces nVerts adjacency flags 0 (True, msgs)")
    (auto simp: reading_def)

text \<open>Without a sink the scan stops in the first face that has a violation.\<close>

lemma checked_faces_first_violation:
  assumes "\<And>f. face \<le> f \<Longrightarrow> f < m \<Longrightarrow> f * 3 + 2 < length indices \<and>
             (case adjacency of None \<Rightarrow> True | Some adj \<Rightarrow> f * 3 + 2 < length adj)"
    and "m \<le> nFaces"
    and "\<exists>g. face \<le> g \<and> g < m \<and> spec_face_violations indices nFaces nVerts adjacency flags g \<noteq> []"
  shows "checked_faces indices nFaces nVerts adjacency flags face (res, None)
       = Exit (Ran (E_FAIL, None))"
  using assms
proof (induction "m - face" arbitrary: face)
  case 0
  then show ?case by auto
next
  case (Suc n)
  from Suc.prems(3) obtain g where g: "face \<le> g" "g < m"
    "spec_face_violations indices nFaces nVerts adjacency flags g \<noteq> []" by blast
  have lt: "face < nFaces" using g Suc.prems(2) by simp
  have ins: "face * 3 + 2 < length indices"
    "case adjacency of None \<Rightarrow> True | Some adj \<Rightarrow> face * 3 + 2 < length adj"
    using Suc.prems(1) [of face] g by simp_all
  show ?case
  proof (cases "spec_face_violations indices nFaces nVerts adjacency flags face = []")
    case False
    then show ?thesis
      unfolding checked_faces_step [OF lt] checked_body_inside [OF ins]
      by (simp add: absorb_def reading_def)
  next
    case True
    then have "g \<noteq> face" using g by auto
    then have ex: "\<exists>g. Suc face \<le> g \<and> g < m \<and>
        spec_face_violations indices nFaces nVerts adjacency flags g \<noteq> []"
      using g by (intro exI [of _ g]) simp
    have "checked_faces indices nFaces nVerts adjacency flags (Suc face) (res, None)
        = Exit (Ran (E_FAIL, None))"
      using Suc.hyps(1) [of "Suc face"] Suc.hyps(2) Suc.prems(1,2) ex by simp
    then show ?thesis
      unfolding checked_faces_step [OF lt] checked_body_inside [OF ins]
      by (simp add: True absorb_def reading_def)
  qed
qed

text \<open>With a sink the scan goes on to the last face.\<close>

lemma check_index_sink:
  "\<exists>r' ms'. check_index indices nVerts face point (r, Some ms) = Next (r', Some ms')"
  by (auto simp: check_index_def report_def Let_def)

lemma check_neighbor_sink:
  "\<exists>r' ms'. check_neighbor adjacency nFaces face point (r, Some ms) = Next (r', Some ms')"
  by (auto simp: check_neighbor_def report_def Let_def split: option.splits)

lemma check_face_sink:
  "\<exists>r' ms'. check_face indices adjacency flags face (r, Some ms) = Next (r', Some ms')"
  by (auto simp: check_face_def check_duplicate_def report_def split: option.splits)

lemma checked_points_sink:
  "checked_points indices nFaces nVerts adjacency face point (r, Some ms) = Exit ReadOutside \<or>
   (face * 3 + 2 < length indices \<or> 3 \<le> point) \<and>
   (\<exists>r' ms'. checked_points indices nFaces nVerts adjacency face point (r, Some ms)
       = Next (r', Some ms'))"
proof (induction "3 - point" arbitrary: point r ms)
  case 0
  then have "\<not> point < 3" by simp
  then show ?case by (subst (1 2) checked_points.simps) simp
next
  case (Suc n)
  then have lt: "point < 3" by simp
  obtain r1 ms1 where a: "check_index indices nVerts face point (r, Some ms) = Next (r1, Some ms1)"
    using check_index_sink by blast
  obtain r2 ms2 where b: "check_neighbor adjacency nFaces face point (r1, Some ms1)
      = Next (r2, Some ms2)"
    using check_neighbor_sink by blast
  note ih = Suc.hyps(1) [of "Suc point" r2 ms2]
  show ?case
  proof (cases "face * 3 + point < length indices \<and>
      (case adjacency of None \<Rightarrow> True | Some adj \<Rightarrow> face * 3 + point < length adj)")
    case False
    then have "checked_points indices nFaces nVerts adjacency face point (r, Some ms)
        = Exit ReadOutside"
      using lt a by (subst checked_points.simps) (auto simp: reading_def)
    then show ?thesis by simp
  next
    case True
    then have step: "checked_points indices nFaces nVerts adjacency face point (r, Some ms)
        = checked_points indices nFaces nVerts adjacency face (Suc point) (r2, Some ms2)"
      using lt a b by (subst checked_points.simps) (simp add: reading_def)
    have two: "face * 3 + 2 < length indices" if "3 \<le> Suc point"
    proof -
      have "point = 2" using that lt by arith
      then show ?thesis using True by simp
    qed
    have n: "n = 3 - Suc point" using Suc.hyps(2) by arith
    from ih [OF n] show ?thesis
      unfolding step using two by blast
  qed
qed

lemma checked_body_sink:
  "(case checked_points indices nFaces nVerts adjacency face 0 (r, Some ms) of
      Exit x \<Rightarrow> Exit x
    | Next st1 \<Rightarrow> checked_face indices adjacency flags face st1) = Exit ReadOutside \<or>
   face * 3 + 2 < length indices \<and>
   (\<exists>r' ms'. (case checked_points indices nFaces nVerts adjacency face 0 (r, Some ms) of
      Exit x \<Rightarrow> Exit x
    | Next st1 \<Rightarrow> checked_face indices adjacency flags face st1) = Next (r', Some ms'))"
proof -
  from checked_points_sink [of indices nFaces nVerts adjacency face 0 r ms]
  consider "checked_points indices nFaces nVerts adjacency face 0 (r, Some ms) = Exit ReadOutside"
    | r1 ms1 where "face * 3 + 2 < length indices"
      "checked_points indices nFaces nVerts adjacency face 0 (r, Some ms) = Next (r1, Some ms1)"
    by auto
  then show ?thesis
  proof cases
    case 1
    then show ?thesis by simp
  next
    case 2
    obtain r2 ms2 where "check_face indices adjacency flags face (r1, Some ms1) = Next (r2, Some ms2)"
      using check_face_sink by blast
    then show ?thesis using 2 by (auto simp: checked_face_def reading_def)
  qed
qed

lemma checked_faces_sink_short:
  assumes "length indices < nFaces * 3" and "face < nFaces"
  shows "checked_faces indices nFaces nVerts adjacency flags face (r, Some ms) = Exit ReadOutside"
  using assms(2)
proof (induction "nFaces - face" arbitrary: face r ms)
  case 0
  then show ?case by simp
next
  case (Suc n)
  note lt = Suc.prems
  from checked_body_sink [where indices = indices and nFaces = nFaces and nVerts = nVerts
      and adjacency = adjacency and face = face and r = r and ms = ms and flags = flags]
  show ?case
  proof (elim disjE conjE exE)
    assume "(case checked_points indices nFaces nVerts adjacency face 0 (r, Some ms) of
      Exit x \<Rightarrow> Exit x
    | Next st1 \<Rightarrow> checked_face indices adjacency flags face st1) = Exit ReadOutside"
    then show ?thesis unfolding checked_faces_step [OF lt] by simp
  next
    fix r' ms'
    assume ins: "face * 3 + 2 < length indices"
      and nx: "(case checked_points indices nFaces nVerts adjacency face 0 (r, Some ms) of
      Exit x \<Rightarrow> Exit x
    | Next st1 \<Rightarrow> checked_face indices adjacency flags face st1) = Next (r', Some ms')"
    have "Suc face < nFaces" using ins assms(1) by simp
    then have "checked_faces indices nFaces nVerts adjacency flags (Suc face) (r', Some ms')
        = Exit ReadOutside"
      using Suc.hyps(1) [of "Suc face" r' ms'] Suc.hyps(2) by simp
    then show ?thesis unfolding checked_faces_step [OF lt] nx by simp
  qed
qed

text \<open>
  Claim C1. Once the call is past the adjacency precondition of lines 31-37 (the
  backfacing flag is not set without adjacency), \<open>ValidateIndices\<close> follows the reporting
  policy. With a sink it appends the violations of the mesh to the sink, one text each, in
  the order of the spec (faces in index order; in a face the vertex and the neighbor range
  check of each corner, then the degenerate check, then the duplicate-neighbor check), and
  returns \<open>E_FAIL\<close> exactly when there is one. Without a sink it returns \<open>E_FAIL\<close> exactly
  when there is a violation.

  What the scan reads tells the two modes apart. On the arrays as promised it reads inside
  them. Without a sink it returns at the first violation and reads no later face: cut the
  arrays off right after any face that has a violation, and the call still returns
  \<open>E_FAIL\<close>, having read nothing outside them. With a sink it scans all faces: cut the index
  array off anywhere, and the call reads outside it.
\<close>

theorem ValidateIndices_reporting_policy:
  assumes "arrays_ok indices nFaces adjacency"
    and "flag_set flags VALIDATE_BACKFACING \<longrightarrow> adjacency \<noteq> None"
  shows
    "ValidateIndices indices nFaces nVerts adjacency flags (Some ms) =
       (if spec_violations indices nFaces nVerts adjacency flags = [] then S_OK else E_FAIL,
        Some (ms @ spec_violations indices nFaces nVerts adjacency flags)) \<and>
     ValidateIndices indices nFaces nVerts adjacency flags None =
       (if spec_violations indices nFaces nVerts adjacency flags = [] then S_OK else E_FAIL,
        None) \<and>
     ValidateIndices_checked indices nFaces nVerts adjacency flags msgs =
       Ran (ValidateIndices indices nFaces nVerts adjacency flags msgs) \<and>
     (\<forall>face<nFaces.
        spec_face_violations indices nFaces nVerts adjacency flags face \<noteq> [] \<longrightarrow>
        ValidateIndices_checked (take (Suc face * 3) indices) nFaces nVerts
          (map_option (take (Suc face * 3)) adjacency) flags None = Ran (E_FAIL, None)) \<and>
     (\<forall>n<nFaces * 3.
        ValidateIndices_checked (take n indices) nFaces nVerts adjacency flags (Some ms)
          = ReadOutside)"
proof (intro conjI allI impI)
  show "ValidateIndices indices nFaces nVerts adjacency flags (Some ms) =
       (if spec_violations indices nFaces nVerts adjacency flags = [] then S_OK else E_FAIL,
        Some (ms @ spec_violations indices nFaces nVerts adjacency flags))"
    by (rule ValidateIndices_sink [OF assms(2)])
  show "ValidateIndices indices nFaces nVerts adjacency flags None =
       (if spec_violations indices nFaces nVerts adjacency flags = [] then S_OK else E_FAIL,
        None)"
    by (rule ValidateIndices_no_sink [OF assms(2)])
  show "ValidateIndices_checked indices nFaces nVerts adjacency flags msgs =
       Ran (ValidateIndices indices nFaces nVerts adjacency flags msgs)"
    by (rule ValidateIndices_checked_inside [OF assms(1)])
next
  fix face
  assume face: "face < nFaces"
    and bad: "spec_face_violations indices nFaces nVerts adjacency flags face \<noteq> []"
  let ?k = "Suc face * 3"
  let ?idx = "take ?k indices" and ?adj = "map_option (take ?k) adjacency"
  have len: "length ?idx = ?k" using assms(1) face by (simp add: arrays_ok_def)
  have alen: "case ?adj of None \<Rightarrow> True | Some a \<Rightarrow> length a = ?k"
    using assms(1) face by (cases adjacency) (simp_all add: arrays_ok_def)
  have ins: "f * 3 + 2 < length ?idx \<and>
      (case ?adj of None \<Rightarrow> True | Some a \<Rightarrow> f * 3 + 2 < length a)" if "f < Suc face" for f
    using that len alen by (cases adjacency) simp_all
  have "spec_face_violations ?idx nFaces nVerts ?adj flags face
      = spec_face_violations indices nFaces nVerts adjacency flags face"
    by (rule spec_face_violations_cong) (cases adjacency; simp)+
  then have "\<exists>g. 0 \<le> g \<and> g < Suc face \<and>
      spec_face_violations ?idx nFaces nVerts ?adj flags g \<noteq> []"
    using bad by (intro exI [of _ face]) simp
  then have "checked_faces ?idx nFaces nVerts ?adj flags 0 (True, None)
      = Exit (Ran (E_FAIL, None))"
    using ins face by (intro checked_faces_first_violation [where m = "Suc face"]) simp_all
  moreover have "\<not> (flag_set flags VALIDATE_BACKFACING \<and> ?adj = None)"
    using assms(2) by (cases adjacency) simp_all
  ultimately show "ValidateIndices_checked ?idx nFaces nVerts ?adj flags None = Ran (E_FAIL, None)"
    by (simp add: ValidateIndices_checked_def)
next
  fix n
  assume n: "n < nFaces * 3"
  then have "length (take n indices) < nFaces * 3" by simp
  moreover have "0 < nFaces" using n by simp
  ultimately have "checked_faces (take n indices) nFaces nVerts adjacency flags 0 (True, Some ms)
      = Exit ReadOutside"
    by (rule checked_faces_sink_short)
  then show "ValidateIndices_checked (take n indices) nFaces nVerts adjacency flags (Some ms)
      = ReadOutside"
    using assms(2) by (simp add: ValidateIndices_checked_def)
qed

theorem ValidateIndices_reporting_policy_witness:
  "ValidateIndices [5, 1, 2, 0, 0, 3 :: uint16_t] 2 4 None VALIDATE_DEGENERATE (Some [])
     = (E_FAIL, Some [InvalidIndex 5 0, RepeatedPoint 0 1]) \<and>
   ValidateIndices [5, 1, 2, 0, 0, 3 :: uint16_t] 2 4 None VALIDATE_DEGENERATE None
     = (E_FAIL, None) \<and>
   ValidateIndices_checked [5, 1, 2, 0, 0, 3 :: uint16_t] 2 4 None VALIDATE_DEGENERATE (Some [])
     = Ran (E_FAIL, Some [InvalidIndex 5 0, RepeatedPoint 0 1]) \<and>
   ValidateIndices_checked [5, 1, 2 :: uint16_t] 2 4 None VALIDATE_DEGENERATE None
     = Ran (E_FAIL, None) \<and>
   ValidateIndices_checked [5, 1, 2 :: uint16_t] 2 4 None VALIDATE_DEGENERATE (Some [])
     = ReadOutside"
proof -
  let ?idx = "[5, 1, 2, 0, 0, 3 :: uint16_t]"
  have ok: "arrays_ok ?idx 2 None" by (simp add: arrays_ok_def)
  have pre: "flag_set VALIDATE_DEGENERATE VALIDATE_BACKFACING \<longrightarrow> (None :: uint32_t list option) \<noteq> None"
    by (simp add: flag_set_def VALIDATE_DEGENERATE_def VALIDATE_BACKFACING_def)
  have f0: "spec_face_violations ?idx 2 4 None VALIDATE_DEGENERATE 0 = [InvalidIndex 5 0]"
    by code_simp
  have vs: "spec_violations ?idx 2 4 None VALIDATE_DEGENERATE = [InvalidIndex 5 0, RepeatedPoint 0 1]"
    by code_simp
  note t = ValidateIndices_reporting_policy [OF ok pre, where nVerts = 4 and ms = "[]"]
  have a: "ValidateIndices ?idx 2 4 None VALIDATE_DEGENERATE (Some [])
     = (E_FAIL, Some [InvalidIndex 5 0, RepeatedPoint 0 1])"
    using t [where msgs = None] by (simp add: vs)
  have b: "ValidateIndices ?idx 2 4 None VALIDATE_DEGENERATE None = (E_FAIL, None)"
    using t [where msgs = None] by (simp add: vs)
  have c: "ValidateIndices_checked ?idx 2 4 None VALIDATE_DEGENERATE (Some [])
     = Ran (E_FAIL, Some [InvalidIndex 5 0, RepeatedPoint 0 1])"
    using t [where msgs = "Some []"] a by simp
  have "(0::nat) < 2 \<and> spec_face_violations ?idx 2 4 None VALIDATE_DEGENERATE 0 \<noteq> []"
    by (simp add: f0)
  then have "ValidateIndices_checked (take (Suc 0 * 3) ?idx) 2 4
      (map_option (take (Suc 0 * 3)) None) VALIDATE_DEGENERATE None = Ran (E_FAIL, None)"
    using t [where msgs = None] by blast
  then have d: "ValidateIndices_checked [5, 1, 2 :: uint16_t] 2 4 None VALIDATE_DEGENERATE None
     = Ran (E_FAIL, None)"
    by simp
  have "(3::nat) < 2 * 3" by simp
  then have "ValidateIndices_checked (take 3 ?idx) 2 4 None VALIDATE_DEGENERATE (Some [])
     = ReadOutside"
    using t [where msgs = None] by blast
  then have e: "ValidateIndices_checked [5, 1, 2 :: uint16_t] 2 4 None VALIDATE_DEGENERATE (Some [])
     = ReadOutside"
    by simp
  show ?thesis using a b c d e by simp
qed

lemma InvalidIndex_in_corner:
  "InvalidIndex v f \<in> set (spec_corner_violations indices nFaces nVerts adjacency face point) \<longleftrightarrow>
     f = face \<and> v = unat (indices ! (face * 3 + point)) \<and>
     nVerts \<le> unat (indices ! (face * 3 + point)) \<and> indices ! (face * 3 + point) \<noteq> - 1"
  by (auto simp: spec_corner_violations_def Let_def split: option.splits)

lemma InvalidNeighbor_in_corner_Some:
  "InvalidNeighbor v f \<in> set (spec_corner_violations indices nFaces nVerts (Some adj) face point) \<longleftrightarrow>
     f = face \<and> v = unat (adj ! (face * 3 + point)) \<and>
        nFaces \<le> unat (adj ! (face * 3 + point)) \<and> adj ! (face * 3 + point) \<noteq> UNUSED32"
  by (auto simp: spec_corner_violations_def Let_def)

lemma InvalidNeighbor_in_corner_None:
  "InvalidNeighbor v f \<notin> set (spec_corner_violations indices nFaces nVerts None face point)"
  by (auto simp: spec_corner_violations_def Let_def)

lemma ex_less_3: "(\<exists>p<3. P (p::nat)) \<longleftrightarrow> P 0 \<or> P 1 \<or> P 2"
proof -
  have "\<And>p::nat. p < 3 \<longleftrightarrow> p = 0 \<or> p = 1 \<or> p = 2" by auto
  then show ?thesis by auto
qed

lemma all_less_3: "(\<forall>p<3. P (p::nat)) \<longleftrightarrow> P 0 \<and> P 1 \<and> P 2"
proof -
  have "\<And>p::nat. p < 3 \<longleftrightarrow> p = 0 \<or> p = 1 \<or> p = 2" by auto
  then show ?thesis by auto
qed

lemma InvalidIndex_in_face:
  "InvalidIndex v f \<in> set (spec_face_violations indices nFaces nVerts adjacency flags face) \<longleftrightarrow>
     f = face \<and> (\<exists>point<3. v = unat (indices ! (face * 3 + point)) \<and>
        nVerts \<le> unat (indices ! (face * 3 + point)) \<and> indices ! (face * 3 + point) \<noteq> - 1)"
  unfolding ex_less_3
  by (auto simp: spec_face_violations_def InvalidIndex_in_corner split: option.splits)

lemma InvalidNeighbor_in_face_Some:
  "InvalidNeighbor v f \<in> set (spec_face_violations indices nFaces nVerts (Some adj) flags face) \<longleftrightarrow>
     f = face \<and> (\<exists>point<3. v = unat (adj ! (face * 3 + point)) \<and>
        nFaces \<le> unat (adj ! (face * 3 + point)) \<and> adj ! (face * 3 + point) \<noteq> UNUSED32)"
  unfolding ex_less_3
  by (auto simp: spec_face_violations_def InvalidNeighbor_in_corner_Some)

lemma InvalidNeighbor_in_face_None:
  "InvalidNeighbor v f \<notin> set (spec_face_violations indices nFaces nVerts None flags face)"
  by (auto simp: spec_face_violations_def InvalidNeighbor_in_corner_None)

lemma RepeatedPoint_in_face:
  "RepeatedPoint v f \<in> set (spec_face_violations indices nFaces nVerts adjacency flags face) \<longleftrightarrow>
     f = face \<and> degenerate indices face \<and> flag_set flags VALIDATE_DEGENERATE \<and>
     v = unat (degenerate_bad indices face)"
  by (auto simp: spec_face_violations_def spec_corner_violations_def Let_def split: option.splits)

lemma RepeatedNeighbor_in_face_Some:
  "RepeatedNeighbor v f \<in> set (spec_face_violations indices nFaces nVerts (Some adj) flags face) \<longleftrightarrow>
     f = face \<and> \<not> degenerate indices face \<and>
        flag_set flags VALIDATE_BACKFACING \<and> duplicate_neighbor adj face \<and>
        v = unat (duplicate_bad adj face)"
  by (auto simp: spec_face_violations_def spec_corner_violations_def Let_def)

lemma RepeatedNeighbor_in_face_None:
  "RepeatedNeighbor v f \<notin> set (spec_face_violations indices nFaces nVerts None flags face)"
  by (auto simp: spec_face_violations_def spec_corner_violations_def Let_def)

lemma diagnostics_ValidateIndices:
  assumes "flag_set flags VALIDATE_BACKFACING \<longrightarrow> adjacency \<noteq> None"
  shows "diagnostics (snd (ValidateIndices indices nFaces nVerts adjacency flags (Some ms)))
       = ms @ spec_violations indices nFaces nVerts adjacency flags"
  by (simp add: ValidateIndices_sink [OF assms] diagnostics_def)

lemma status_ValidateIndices:
  assumes "flag_set flags VALIDATE_BACKFACING \<longrightarrow> adjacency \<noteq> None"
  shows "fst (ValidateIndices indices nFaces nVerts adjacency flags msgs)
       = (if spec_violations indices nFaces nVerts adjacency flags = [] then S_OK else E_FAIL)"
  by (cases msgs) (simp_all add: ValidateIndices_sink [OF assms] ValidateIndices_no_sink [OF assms])

text \<open>
  Claim C2. Past the adjacency precondition, for every face and each of its three corners:
  the sink gets the text "invalid index value" for the corner's vertex index exactly when
  the index is not below \<open>nVerts\<close> and is not the sentinel (all bits set, at the width of the
  index type); with adjacency, it gets the text "invalid neighbor index value" for the
  corner's neighbor exactly when that is not below \<open>nFaces\<close> and is not \<open>UNUSED32\<close>; without
  adjacency no neighbor is reported. Either violation makes the call return \<open>E_FAIL\<close>, with
  or without a sink. The sentinel is never reported, whatever \<open>nVerts\<close> and \<open>nFaces\<close> are.
\<close>

theorem ValidateIndices_range_checks:
  assumes "arrays_ok indices nFaces adjacency"
    and "flag_set flags VALIDATE_BACKFACING \<longrightarrow> adjacency \<noteq> None"
    and "face < nFaces" and "point < 3"
  shows
    "(InvalidIndex (unat (indices ! (face * 3 + point))) face
        \<in> set (diagnostics (snd (ValidateIndices indices nFaces nVerts adjacency flags (Some []))))
      \<longleftrightarrow> nVerts \<le> unat (indices ! (face * 3 + point)) \<and> indices ! (face * 3 + point) \<noteq> - 1) \<and>
     (\<forall>adj. adjacency = Some adj \<longrightarrow>
        (InvalidNeighbor (unat (adj ! (face * 3 + point))) face
           \<in> set (diagnostics (snd (ValidateIndices indices nFaces nVerts adjacency flags (Some []))))
         \<longleftrightarrow> nFaces \<le> unat (adj ! (face * 3 + point)) \<and> adj ! (face * 3 + point) \<noteq> UNUSED32)) \<and>
     (adjacency = None \<longrightarrow>
        (\<forall>j f. InvalidNeighbor j f
           \<notin> set (diagnostics (snd (ValidateIndices indices nFaces nVerts adjacency flags (Some [])))))) \<and>
     ((nVerts \<le> unat (indices ! (face * 3 + point)) \<and> indices ! (face * 3 + point) \<noteq> - 1) \<or>
      (\<exists>adj. adjacency = Some adj \<and>
         nFaces \<le> unat (adj ! (face * 3 + point)) \<and> adj ! (face * 3 + point) \<noteq> UNUSED32)
      \<longrightarrow> fst (ValidateIndices indices nFaces nVerts adjacency flags msgs) = E_FAIL)"
proof -
  let ?out = "diagnostics (snd (ValidateIndices indices nFaces nVerts adjacency flags (Some [])))"
  let ?i = "indices ! (face * 3 + point)"
  have out: "set ?out =
      (\<Union>f\<in>{0..<nFaces}. set (spec_face_violations indices nFaces nVerts adjacency flags f))"
    by (simp add: diagnostics_ValidateIndices [OF assms(2)] set_spec_violations)
  have a: "InvalidIndex (unat ?i) face \<in> set ?out \<longleftrightarrow> nVerts \<le> unat ?i \<and> ?i \<noteq> - 1"
  proof
    assume "InvalidIndex (unat ?i) face \<in> set ?out"
    then obtain p where "p < 3" "unat ?i = unat (indices ! (face * 3 + p))"
      "nVerts \<le> unat (indices ! (face * 3 + p))" "indices ! (face * 3 + p) \<noteq> - 1"
      unfolding out by (auto simp: InvalidIndex_in_face)
    then show "nVerts \<le> unat ?i \<and> ?i \<noteq> - 1" by (auto simp: word_unat_eq_iff)
  next
    assume "nVerts \<le> unat ?i \<and> ?i \<noteq> - 1"
    then show "InvalidIndex (unat ?i) face \<in> set ?out"
      unfolding out using assms(3,4) by (auto simp: InvalidIndex_in_face)
  qed
  have b: "InvalidNeighbor (unat (adj ! (face * 3 + point))) face \<in> set ?out
      \<longleftrightarrow> nFaces \<le> unat (adj ! (face * 3 + point)) \<and> adj ! (face * 3 + point) \<noteq> UNUSED32"
    if adj: "adjacency = Some adj" for adj
  proof
    let ?j = "adj ! (face * 3 + point)"
    have out': "set ?out =
      (\<Union>f\<in>{0..<nFaces}. set (spec_face_violations indices nFaces nVerts (Some adj) flags f))"
      using out adj by simp
    assume "InvalidNeighbor (unat ?j) face \<in> set ?out"
    then obtain p where "p < 3" "unat ?j = unat (adj ! (face * 3 + p))"
      "nFaces \<le> unat (adj ! (face * 3 + p))" "adj ! (face * 3 + p) \<noteq> UNUSED32"
      unfolding out' by (auto simp: InvalidNeighbor_in_face_Some)
    then show "nFaces \<le> unat ?j \<and> ?j \<noteq> UNUSED32" by (auto simp: word_unat_eq_iff)
  next
    let ?j = "adj ! (face * 3 + point)"
    have out': "set ?out =
      (\<Union>f\<in>{0..<nFaces}. set (spec_face_violations indices nFaces nVerts (Some adj) flags f))"
      using out adj by simp
    assume "nFaces \<le> unat ?j \<and> ?j \<noteq> UNUSED32"
    then show "InvalidNeighbor (unat ?j) face \<in> set ?out"
      unfolding out' using assms(3,4) by (auto simp: InvalidNeighbor_in_face_Some)
  qed
  have c: "adjacency = None \<Longrightarrow> InvalidNeighbor j f \<notin> set ?out" for j f
    unfolding out by (auto simp: InvalidNeighbor_in_face_None)
  have d: "fst (ValidateIndices indices nFaces nVerts adjacency flags msgs) = E_FAIL"
    if "(nVerts \<le> unat ?i \<and> ?i \<noteq> - 1) \<or>
      (\<exists>adj. adjacency = Some adj \<and>
         nFaces \<le> unat (adj ! (face * 3 + point)) \<and> adj ! (face * 3 + point) \<noteq> UNUSED32)"
  proof -
    have "InvalidIndex (unat ?i) face \<in> set ?out \<or>
        (\<exists>adj. adjacency = Some adj \<and> InvalidNeighbor (unat (adj ! (face * 3 + point))) face \<in> set ?out)"
      using that a b by auto
    then have "?out \<noteq> []" by auto
    then have "spec_violations indices nFaces nVerts adjacency flags \<noteq> []"
      by (simp add: diagnostics_ValidateIndices [OF assms(2)])
    then show ?thesis by (simp add: status_ValidateIndices [OF assms(2)])
  qed
  show ?thesis using a b c d by blast
qed

theorem ValidateIndices_range_checks_witness:
  "InvalidIndex 5 0
     \<in> set (diagnostics (snd (ValidateIndices [5, 1, 0xFFFF :: uint16_t] 1 3
                 (Some [7, UNUSED32, 0]) 0 (Some [])))) \<and>
   InvalidIndex 65535 0
     \<notin> set (diagnostics (snd (ValidateIndices [5, 1, 0xFFFF :: uint16_t] 1 3
                 (Some [7, UNUSED32, 0]) 0 (Some [])))) \<and>
   InvalidNeighbor 7 0
     \<in> set (diagnostics (snd (ValidateIndices [5, 1, 0xFFFF :: uint16_t] 1 3
                 (Some [7, UNUSED32, 0]) 0 (Some [])))) \<and>
   InvalidNeighbor 4294967295 0
     \<notin> set (diagnostics (snd (ValidateIndices [5, 1, 0xFFFF :: uint16_t] 1 3
                 (Some [7, UNUSED32, 0]) 0 (Some [])))) \<and>
   fst (ValidateIndices [5, 1, 0xFFFF :: uint16_t] 1 3 (Some [7, UNUSED32, 0]) 0 None) = E_FAIL"
proof -
  let ?idx = "[5, 1, 0xFFFF :: uint16_t]" and ?adj = "[7, UNUSED32, 0]"
  have ok: "arrays_ok ?idx 1 (Some ?adj)" by (simp add: arrays_ok_def)
  have pre: "flag_set 0 VALIDATE_BACKFACING \<longrightarrow> Some ?adj \<noteq> None" by simp
  have p0: "(0::nat) < 1" "(0::nat) < 3" and p1: "(1::nat) < 3" and p2: "(2::nat) < 3" by simp_all
  note t0 = ValidateIndices_range_checks [OF ok pre p0, where nVerts = 3 and msgs = None]
    and t1 = ValidateIndices_range_checks [OF ok pre p0(1) p1, where nVerts = 3 and msgs = None]
    and t2 = ValidateIndices_range_checks [OF ok pre p0(1) p2, where nVerts = 3 and msgs = None]
  have u: "unat (- 1 :: uint32_t) = 4294967295"
    by (simp add: unsigned_minus_1_eq_mask mask_eq_exp_minus_1)
  show ?thesis using t0 t1 t2 by (simp add: UNUSED32_def u)
qed

text \<open>
  Claim C4. Past the adjacency precondition, for every face: the face counts as degenerate
  exactly when its three vertex indices are not pairwise distinct; the sink gets a
  "found more than once" text for the face exactly when the face is degenerate and the
  degenerate-check flag is set, and the text names a vertex that sits at two corners of
  the face; the call then returns \<open>E_FAIL\<close>, with or without a sink. A degenerate face is
  never reported for a duplicate neighbor. With the flag unset degenerate faces are
  tolerated: a mesh of degenerate faces whose corners are in range validates with \<open>S_OK\<close>
  and leaves the sink as it was.
\<close>

theorem ValidateIndices_degenerate:
  assumes "arrays_ok indices nFaces adjacency"
    and "flag_set flags VALIDATE_BACKFACING \<longrightarrow> adjacency \<noteq> None"
    and "face < nFaces"
  shows
    "(degenerate indices face \<longleftrightarrow>
        \<not> distinct [indices ! (face * 3), indices ! (face * 3 + 1), indices ! (face * 3 + 2)]) \<and>
     ((\<exists>v. RepeatedPoint v face
          \<in> set (diagnostics (snd (ValidateIndices indices nFaces nVerts adjacency flags (Some [])))))
        \<longleftrightarrow> degenerate indices face \<and> flag_set flags VALIDATE_DEGENERATE) \<and>
     (\<forall>v. RepeatedPoint v face
          \<in> set (diagnostics (snd (ValidateIndices indices nFaces nVerts adjacency flags (Some []))))
        \<longrightarrow> (\<exists>p q. p < q \<and> q < 3 \<and> indices ! (face * 3 + p) = indices ! (face * 3 + q) \<and>
                v = unat (indices ! (face * 3 + p)))) \<and>
     (degenerate indices face \<and> flag_set flags VALIDATE_DEGENERATE
        \<longrightarrow> fst (ValidateIndices indices nFaces nVerts adjacency flags msgs) = E_FAIL) \<and>
     (degenerate indices face
        \<longrightarrow> (\<forall>j. RepeatedNeighbor j face
               \<notin> set (diagnostics (snd (ValidateIndices indices nFaces nVerts adjacency flags (Some [])))))) \<and>
     (\<not> flag_set flags VALIDATE_DEGENERATE \<and>
      (\<forall>f<nFaces. degenerate indices f \<and>
         (\<forall>p<3. spec_corner_violations indices nFaces nVerts adjacency f p = []))
        \<longrightarrow> ValidateIndices indices nFaces nVerts adjacency flags msgs = (S_OK, msgs))"
proof -
  let ?out = "diagnostics (snd (ValidateIndices indices nFaces nVerts adjacency flags (Some [])))"
  let ?vs = "spec_violations indices nFaces nVerts adjacency flags"
  have out: "set ?out =
      (\<Union>f\<in>{0..<nFaces}. set (spec_face_violations indices nFaces nVerts adjacency flags f))"
    by (simp add: diagnostics_ValidateIndices [OF assms(2)] set_spec_violations)
  have a: "degenerate indices face \<longleftrightarrow>
        \<not> distinct [indices ! (face * 3), indices ! (face * 3 + 1), indices ! (face * 3 + 2)]"
    by (auto simp: degenerate_def)
  have rp: "RepeatedPoint v face \<in> set ?out \<longleftrightarrow>
      degenerate indices face \<and> flag_set flags VALIDATE_DEGENERATE \<and>
      v = unat (degenerate_bad indices face)" for v
    unfolding out using assms(3) by (auto simp: RepeatedPoint_in_face)
  have b: "(\<exists>v. RepeatedPoint v face \<in> set ?out)
        \<longleftrightarrow> degenerate indices face \<and> flag_set flags VALIDATE_DEGENERATE"
    by (auto simp: rp)
  have bad: "\<exists>p q. p < q \<and> q < 3 \<and> indices ! (face * 3 + p) = indices ! (face * 3 + q) \<and>
                degenerate_bad indices face = indices ! (face * 3 + p)"
    if dg: "degenerate indices face"
  proof -
    let ?i0 = "indices ! (face * 3)" and ?i1 = "indices ! (face * 3 + 1)"
      and ?i2 = "indices ! (face * 3 + 2)"
    consider "?i0 = ?i1" | "?i0 \<noteq> ?i1" "?i1 = ?i2" | "?i0 \<noteq> ?i1" "?i1 \<noteq> ?i2" "?i0 = ?i2"
      using dg unfolding degenerate_def Let_def by blast
    then show ?thesis
    proof cases
      case 1
      then have "(0::nat) < 1 \<and> (1::nat) < 3 \<and> indices ! (face * 3 + 0) = indices ! (face * 3 + 1) \<and>
          degenerate_bad indices face = indices ! (face * 3 + 0)"
        by (simp add: degenerate_bad_def)
      then show ?thesis by blast
    next
      case 2
      then have "(1::nat) < 2 \<and> (2::nat) < 3 \<and> indices ! (face * 3 + 1) = indices ! (face * 3 + 2) \<and>
          degenerate_bad indices face = indices ! (face * 3 + 1)"
        by (simp add: degenerate_bad_def)
      then show ?thesis by blast
    next
      case 3
      then have "(0::nat) < 2 \<and> (2::nat) < 3 \<and> indices ! (face * 3 + 0) = indices ! (face * 3 + 2) \<and>
          degenerate_bad indices face = indices ! (face * 3 + 0)"
        by (simp add: degenerate_bad_def)
      then show ?thesis by blast
    qed
  qed
  have c: "\<exists>p q. p < q \<and> q < 3 \<and> indices ! (face * 3 + p) = indices ! (face * 3 + q) \<and>
                v = unat (indices ! (face * 3 + p))"
    if "RepeatedPoint v face \<in> set ?out" for v
  proof -
    have dg: "degenerate indices face" and v: "v = unat (degenerate_bad indices face)"
      using that by (simp_all add: rp)
    from bad [OF dg] obtain p q where "p < q" "q < 3"
      "indices ! (face * 3 + p) = indices ! (face * 3 + q)"
      "degenerate_bad indices face = indices ! (face * 3 + p)"
      by blast
    then have "p < q \<and> q < 3 \<and> indices ! (face * 3 + p) = indices ! (face * 3 + q) \<and>
        v = unat (indices ! (face * 3 + p))"
      using v by simp
    then show ?thesis by blast
  qed
  have d: "fst (ValidateIndices indices nFaces nVerts adjacency flags msgs) = E_FAIL"
    if "degenerate indices face \<and> flag_set flags VALIDATE_DEGENERATE"
  proof -
    have "RepeatedPoint (unat (degenerate_bad indices face)) face \<in> set ?out"
      using that by (simp add: rp)
    then have "?out \<noteq> []" by auto
    then have "?vs \<noteq> []"
      by (simp add: diagnostics_ValidateIndices [OF assms(2)])
    then show ?thesis by (simp add: status_ValidateIndices [OF assms(2)])
  qed
  have e: "RepeatedNeighbor j face \<notin> set ?out" if "degenerate indices face" for j
    unfolding out using that
    by (cases adjacency) (auto simp: RepeatedNeighbor_in_face_Some RepeatedNeighbor_in_face_None)
  have f: "ValidateIndices indices nFaces nVerts adjacency flags msgs = (S_OK, msgs)"
    if "\<not> flag_set flags VALIDATE_DEGENERATE \<and>
      (\<forall>f<nFaces. degenerate indices f \<and>
         (\<forall>p<3. spec_corner_violations indices nFaces nVerts adjacency f p = []))"
  proof -
    have "spec_face_violations indices nFaces nVerts adjacency flags f = []" if "f < nFaces" for f
      using that \<open>\<not> flag_set flags VALIDATE_DEGENERATE \<and> _\<close>
      by (simp add: spec_face_violations_def)
    then have "?vs = []" by (simp add: spec_violations_Nil)
    then show ?thesis
      by (cases msgs)
        (simp_all add: ValidateIndices_sink [OF assms(2)] ValidateIndices_no_sink [OF assms(2)])
  qed
  show ?thesis using a b c d e f by blast
qed

theorem ValidateIndices_degenerate_witness:
  "degenerate [0, 3, 3 :: uint16_t] 0 \<and>
   (\<exists>v. RepeatedPoint v 0
     \<in> set (diagnostics (snd (ValidateIndices [0, 3, 3 :: uint16_t] 1 4 (Some [0, 0, UNUSED32])
         (VALIDATE_DEGENERATE OR VALIDATE_BACKFACING) (Some []))))) \<and>
   RepeatedNeighbor 0 0
     \<notin> set (diagnostics (snd (ValidateIndices [0, 3, 3 :: uint16_t] 1 4 (Some [0, 0, UNUSED32])
         (VALIDATE_DEGENERATE OR VALIDATE_BACKFACING) (Some [])))) \<and>
   fst (ValidateIndices [0, 3, 3 :: uint16_t] 1 4 (Some [0, 0, UNUSED32])
         (VALIDATE_DEGENERATE OR VALIDATE_BACKFACING) None) = E_FAIL \<and>
   ValidateIndices [0, 3, 3 :: uint16_t] 1 4 (Some [0, 0, UNUSED32]) VALIDATE_BACKFACING (Some [])
     = (S_OK, Some [])"
proof -
  let ?idx = "[0, 3, 3 :: uint16_t]" and ?adj = "[0, 0, UNUSED32]"
  have ok: "arrays_ok ?idx 1 (Some ?adj)" by (simp add: arrays_ok_def)
  have pre: "flag_set flags VALIDATE_BACKFACING \<longrightarrow> Some ?adj \<noteq> None" for flags by simp
  have f: "(0::nat) < 1" by simp
  have deg: "degenerate ?idx 0" by (simp add: degenerate_def)
  have fl: "flag_set (VALIDATE_DEGENERATE OR VALIDATE_BACKFACING) VALIDATE_DEGENERATE"
    "\<not> flag_set VALIDATE_BACKFACING VALIDATE_DEGENERATE"
    by (simp_all add: flag_set_def VALIDATE_DEGENERATE_def VALIDATE_BACKFACING_def)
  have cv: "\<forall>f<1. degenerate ?idx f \<and> (\<forall>p<3. spec_corner_violations ?idx 1 4 (Some ?adj) f p = [])"
    by (simp add: all_less_3 deg spec_corner_violations_def UNUSED32_def)
  note t1 = ValidateIndices_degenerate [OF ok pre f, where nVerts = 4 and msgs = None
      and flags = "VALIDATE_DEGENERATE OR VALIDATE_BACKFACING"]
    and t2 = ValidateIndices_degenerate [OF ok pre f, where nVerts = 4 and msgs = "Some []"
      and flags = VALIDATE_BACKFACING]
  show ?thesis using t1 t2 deg fl cv by simp
qed

text \<open>
  The argument checks of lines 267-271 and 296-300, with the product as the code takes it:
  in 64 bits. A call they reject gets its sink back as it passed it.
\<close>

lemma Validate_argument_checks:
  "(indices = None \<or> nFaces = 0 \<or> nVerts = 0 \<longrightarrow>
      Validate it alloc indices nFaces nVerts adjacency flags msgs
        = Some (Returns E_INVALIDARG msgs)) \<and>
   (indices \<noteq> None \<and> nFaces \<noteq> 0 \<and> nVerts \<noteq> 0 \<and> 0xFFFFFFFF < (nFaces * 3) mod 2 ^ 64 \<longrightarrow>
      Validate it alloc indices nFaces nVerts adjacency flags msgs
        = Some (Returns ERROR_ARITHMETIC_OVERFLOW msgs))"
  by (auto simp: Validate_def split: option.splits)

text \<open>
  Claim C6 holds of the null pointer and the zero counts, and of the sink; it fails on the
  code for the overflow. The test of lines 270 and 299 multiplies in \<^verbatim>\<open>uint64_t\<close>, and a
  \<^verbatim>\<open>size_t\<close> of 64 bits can hold a face count whose triple does not fit: for
  \<open>nFaces = 0x5555555555555556\<close> the product is \<open>2\<close> modulo \<open>2 ^ 64\<close>. The call is then not
  rejected: it goes on to validate the indices, and here returns \<open>E_FAIL\<close> for the invalid
  index of face 0 where the claim has the overflow status.
\<close>

theorem Validate_overflow_check_wraps:
  "(0xFFFFFFFF :: nat) < 6148914691236517206 * 3 \<and>
   Validate16 spec_orbit (\<lambda>n. True) (Some [5, 1, 2]) 6148914691236517206 3 None 0 None
     = Some (Returns E_FAIL None) \<and>
   Validate32 spec_orbit (\<lambda>n. True) (Some [5, 1, 2]) 6148914691236517206 3 None 0 None
     = Some (Returns E_FAIL None)"
proof -
  have a: "Validate16 spec_orbit (\<lambda>n. True) (Some [5, 1, 2]) 6148914691236517206 3 None 0 None
     = Some (Returns E_FAIL None)"
    by code_simp
  have b: "Validate32 spec_orbit (\<lambda>n. True) (Some [5, 1, 2]) 6148914691236517206 3 None 0 None
     = Some (Returns E_FAIL None)"
    by code_simp
  show ?thesis using a b by simp
qed

lemma ValidateIndices_S_OK_sink:
  assumes "ValidateIndices indices nFaces nVerts adjacency flags msgs = (S_OK, msgs1)"
  shows "msgs1 = msgs"
proof (cases "flag_set flags VALIDATE_BACKFACING \<and> adjacency = None")
  case True
  then show ?thesis using assms by (simp add: ValidateIndices_def)
next
  case False
  then have pre: "flag_set flags VALIDATE_BACKFACING \<longrightarrow> adjacency \<noteq> None" by simp
  show ?thesis using assms
    by (cases msgs)
      (auto simp: ValidateIndices_sink [OF pre] ValidateIndices_no_sink [OF pre] split: if_splits)
qed

text \<open>
  Claim C3 as stated fails. The claim has no text accumulated for a missing adjacency; the
  sink holds one after each of the first two calls. It also has the call return the
  invalid-argument status whenever the bowtie flag is set without adjacency; the third
  call returns \<open>E_FAIL\<close>, from the index validation that runs before the bowtie check.
\<close>

theorem missing_adjacency_counterexample:
  "Validate16 spec_orbit (\<lambda>n. True) (Some [0, 1, 2]) 1 3 None VALIDATE_BACKFACING (Some [])
     = Some (Returns E_INVALIDARG (Some [MissingAdjacencyBackfacing])) \<and>
   Validate16 spec_orbit (\<lambda>n. True) (Some [0, 1, 2]) 1 3 None VALIDATE_BOWTIES (Some [])
     = Some (Returns E_INVALIDARG (Some [MissingAdjacencyBowties])) \<and>
   Validate16 spec_orbit (\<lambda>n. True) (Some [5, 1, 2]) 1 3 None VALIDATE_BOWTIES (Some [])
     = Some (Returns E_FAIL (Some [InvalidIndex 5 0]))"
proof -
  have fl: "flag_set VALIDATE_BACKFACING VALIDATE_BACKFACING"
    "\<not> flag_set VALIDATE_BOWTIES VALIDATE_BACKFACING"
    "flag_set VALIDATE_BOWTIES VALIDATE_BOWTIES"
    by (simp_all add: flag_set_def VALIDATE_BACKFACING_def VALIDATE_BOWTIES_def)
  have v1: "ValidateIndices [0, 1, 2 :: uint16_t] (Suc 0) 3 None VALIDATE_BOWTIES (Some [])
      = (S_OK, Some [])"
    by code_simp
  have v2: "ValidateIndices [5, 1, 2 :: uint16_t] (Suc 0) 3 None VALIDATE_BOWTIES (Some [])
      = (E_FAIL, Some [InvalidIndex 5 0])"
    by code_simp
  show ?thesis
    by (simp add: Validate16_def Validate_def ValidateIndices_def [of _ _ _ _ VALIDATE_BACKFACING]
        ValidateNoBowties_def fl v1 v2 FAILED_def)
qed

text \<open>
  Claim C3, amended. \<open>ValidateIndices\<close> called with the backfacing flag and no adjacency,
  and \<open>ValidateNoBowties\<close> called with no adjacency, return \<open>E_INVALIDARG\<close> at once, and a
  sink that was passed gets one text that names the missing adjacency. For an entry
  point that is past its own argument checks: with the backfacing flag and no adjacency
  it returns \<open>E_INVALIDARG\<close> and the cleared sink holds that one text; with the bowtie flag
  alone and no adjacency, index validation runs first, and when it finds no violation the
  call returns \<open>E_INVALIDARG\<close> with the one text of the bowtie check in the sink.
\<close>

theorem missing_adjacency_invalid_arg:
  "(flag_set flags VALIDATE_BACKFACING \<longrightarrow>
      ValidateIndices indices nFaces nVerts None flags msgs
        = (E_INVALIDARG, map_option (\<lambda>ms. ms @ [MissingAdjacencyBackfacing]) msgs)) \<and>
   ValidateNoBowties it alloc indices nFaces nVerts None msgs
     = Some (Returns E_INVALIDARG (map_option (\<lambda>ms. ms @ [MissingAdjacencyBowties]) msgs)) \<and>
   (nFaces \<noteq> 0 \<and> nVerts \<noteq> 0 \<and> (nFaces * 3) mod 2 ^ 64 \<le> 0xFFFFFFFF \<longrightarrow>
      (flag_set flags VALIDATE_BACKFACING \<longrightarrow>
         Validate it alloc (Some indices) nFaces nVerts None flags msgs
           = Some (Returns E_INVALIDARG (map_option (\<lambda>ms. [MissingAdjacencyBackfacing]) msgs))) \<and>
      (\<not> flag_set flags VALIDATE_BACKFACING \<and> flag_set flags VALIDATE_BOWTIES \<and>
       spec_violations indices nFaces nVerts None flags = [] \<longrightarrow>
         Validate it alloc (Some indices) nFaces nVerts None flags msgs
           = Some (Returns E_INVALIDARG (map_option (\<lambda>ms. [MissingAdjacencyBowties]) msgs))))"
proof (intro conjI impI)
  show "ValidateIndices indices nFaces nVerts None flags msgs
        = (E_INVALIDARG, map_option (\<lambda>ms. ms @ [MissingAdjacencyBackfacing]) msgs)"
    if "flag_set flags VALIDATE_BACKFACING"
    using that by (simp add: ValidateIndices_def)
  show "ValidateNoBowties it alloc indices nFaces nVerts None msgs
     = Some (Returns E_INVALIDARG (map_option (\<lambda>ms. ms @ [MissingAdjacencyBowties]) msgs))"
    by (simp add: ValidateNoBowties_def)
  show "Validate it alloc (Some indices) nFaces nVerts None flags msgs
           = Some (Returns E_INVALIDARG (map_option (\<lambda>ms. [MissingAdjacencyBackfacing]) msgs))"
    if "nFaces \<noteq> 0 \<and> nVerts \<noteq> 0 \<and> (nFaces * 3) mod 2 ^ 64 \<le> 0xFFFFFFFF"
      and "flag_set flags VALIDATE_BACKFACING"
    using that
    by (cases msgs) (simp_all add: Validate_def ValidateIndices_def FAILED_def Let_def)
  show "Validate it alloc (Some indices) nFaces nVerts None flags msgs
           = Some (Returns E_INVALIDARG (map_option (\<lambda>ms. [MissingAdjacencyBowties]) msgs))"
    if a: "nFaces \<noteq> 0 \<and> nVerts \<noteq> 0 \<and> (nFaces * 3) mod 2 ^ 64 \<le> 0xFFFFFFFF"
      and b: "\<not> flag_set flags VALIDATE_BACKFACING \<and> flag_set flags VALIDATE_BOWTIES \<and>
       spec_violations indices nFaces nVerts None flags = []"
  proof -
    have pre: "flag_set flags VALIDATE_BACKFACING \<longrightarrow> (None :: uint32_t list option) \<noteq> None"
      using b by simp
    have vi: "ValidateIndices indices nFaces nVerts None flags None = (S_OK, None)"
      "ValidateIndices indices nFaces nVerts None flags (Some []) = (S_OK, Some [])"
      using b by (simp_all add: ValidateIndices_sink [OF pre] ValidateIndices_no_sink [OF pre])
    show ?thesis
      using a b
      by (cases msgs) (simp_all add: Validate_def vi FAILED_def Let_def ValidateNoBowties_def)
  qed
qed

theorem missing_adjacency_invalid_arg_witness:
  "Validate spec_orbit (\<lambda>n. True) (Some [0, 1, 2 :: uint32_t]) 1 3 None
      (VALIDATE_BACKFACING OR VALIDATE_BOWTIES) (Some [BowtieExplanation])
     = Some (Returns E_INVALIDARG (Some [MissingAdjacencyBackfacing])) \<and>
   Validate spec_orbit (\<lambda>n. True) (Some [0, 1, 2 :: uint32_t]) 1 3 None
      VALIDATE_BOWTIES (Some [BowtieExplanation])
     = Some (Returns E_INVALIDARG (Some [MissingAdjacencyBowties]))"
proof -
  have fl: "flag_set (VALIDATE_BACKFACING OR VALIDATE_BOWTIES) VALIDATE_BACKFACING"
    "\<not> flag_set VALIDATE_BOWTIES VALIDATE_BACKFACING"
    "flag_set VALIDATE_BOWTIES VALIDATE_BOWTIES"
    by (simp_all add: flag_set_def VALIDATE_BACKFACING_def VALIDATE_BOWTIES_def)
  have vs: "spec_violations [0, 1, 2 :: uint32_t] 1 3 None VALIDATE_BOWTIES = []"
    by code_simp
  have n: "(1::nat) \<noteq> 0 \<and> (3::nat) \<noteq> 0 \<and> ((1::nat) * 3) mod 2 ^ 64 \<le> 0xFFFFFFFF"
    by simp
  note t1 = missing_adjacency_invalid_arg [where it = spec_orbit and alloc = "\<lambda>n. True"
      and indices = "[0, 1, 2 :: uint32_t]" and nFaces = 1 and nVerts = 3
      and flags = "VALIDATE_BACKFACING OR VALIDATE_BOWTIES" and msgs = "Some [BowtieExplanation]"]
    and t2 = missing_adjacency_invalid_arg [where it = spec_orbit and alloc = "\<lambda>n. True"
      and indices = "[0, 1, 2 :: uint32_t]" and nFaces = 1 and nVerts = 3
      and flags = "VALIDATE_BOWTIES" and msgs = "Some [BowtieExplanation]"]
  show ?thesis using t1 t2 fl vs n by simp
qed

subsection \<open>The bowtie detector reports a vertex once\<close>

lemma bowties_at_simps:
  "bowties_at j [] = 0"
  "bowties_at j (ms @ ns) = bowties_at j ms + bowties_at j ns"
  "bowties_at j [BowtieFound v f g] = (if v = j then 1 else 0)"
  "bowties_at j [BowtieExplanation] = 0"
  "bowties_at j [MissingAdjacencyBowties] = 0"
  "bowties_at j [MissingAdjacencyBackfacing] = 0"
  by (simp_all add: bowties_at_def)

lemma reported_once_sink_once:
  "reported_once sink0 nVerts st \<Longrightarrow> sink_once sink0 (b_msgs st)"
  unfolding reported_once_def sink_once_def
  by (cases sink0) auto

lemma reported_once_faceSeen:
  "reported_once sink0 nVerts (st\<lparr>faceSeen := fs\<rparr>) = reported_once sink0 nVerts st"
  by (cases sink0) (simp_all add: reported_once_def)

lemma reported_once_owner:
  "reported_once sink0 nVerts (st\<lparr>faceIds := a, faceUsing := b\<rparr>) = reported_once sink0 nVerts st"
  by (cases sink0) (simp_all add: reported_once_def)

lemma reported_once_bowtie:
  assumes inv: "reported_once sink0 nVerts st" and j: "j < nVerts" and nb: "\<not> vertexBowtie st ! j"
    and ms: "b_msgs st = Some ms"
  shows "reported_once sink0 nVerts
     (st\<lparr>b_msgs := Some ((if b then ms @ [BowtieExplanation] else ms) @ [BowtieFound j f g]),
         b_result := False,
         vertexBowtie := (vertexBowtie st)[j := True]\<rparr>)"
proof -
  have len: "length (vertexBowtie st) = nVerts" using inv by (simp add: reported_once_def)
  obtain ms0 where s0: "sink0 = Some ms0"
    using inv ms by (cases sink0) (auto simp: reported_once_def)
  then obtain new where new: "ms = ms0 @ new"
    and cnt: "\<And>k. bowties_at k new \<le> 1"
    and flg: "\<And>k. bowties_at k new = 1 \<Longrightarrow> k < nVerts \<and> vertexBowtie st ! k"
    using inv ms by (auto simp: reported_once_def)
  let ?new = "(if b then new @ [BowtieExplanation] else new) @ [BowtieFound j f g]"
  have a: "(if b then ms @ [BowtieExplanation] else ms) @ [BowtieFound j f g] = ms0 @ ?new"
    by (simp add: new)
  have zero: "bowties_at j new = 0" using cnt [of j] flg [of j] nb by arith
  have c: "bowties_at k ?new = (if k = j then 1 else bowties_at k new)" for k
    using zero by (simp add: bowties_at_simps)
  have b1: "bowties_at k ?new \<le> 1" for k
    using cnt [of k] by (simp add: c)
  have b2: "k < nVerts \<and> (vertexBowtie st)[j := True] ! k" if "bowties_at k ?new = 1" for k
  proof (cases "k = j")
    case True
    then show ?thesis using j len by simp
  next
    case False
    then have "bowties_at k new = 1" using that by (simp add: c)
    then show ?thesis using flg [of k] False by simp
  qed
  show ?thesis
    unfolding reported_once_def using len s0 a b1 b2 by auto
qed

lemma orbit_visit_once:
  assumes inv: "reported_once sink0 nVerts st"
  shows "flow_once sink0 nVerts (orbit_visit it indices nFaces nVerts face ovi st)"
proof -
  define curFace where "curFace = unat (fst (nextFace it ovi))"
  define ovi1 where "ovi1 = snd (nextFace it ovi)"
  define curPoint where "curPoint = unat (getpoint it ovi1)"
  define st1 where "st1 = st\<lparr>faceSeen := (faceSeen st)[curFace * 3 + curPoint := True]\<rparr>"
  define j where "j = unat (indices ! (curFace * 3 + curPoint))"
  have inv1: "reported_once sink0 nVerts st1"
    using inv by (simp add: st1_def reported_once_faceSeen)
  have ex: "flow_once sink0 nVerts (Exit (Returns E_FAIL (b_msgs st)))"
    using reported_once_sink_once [OF inv] by (simp add: flow_once_def)
  have ex1: "flow_once sink0 nVerts (Exit (Returns E_FAIL (b_msgs st1)))"
    using reported_once_sink_once [OF inv1] by (simp add: flow_once_def)
  have own: "flow_once sink0 nVerts
      (Next (ovi1, st1\<lparr>faceIds := a, faceUsing := b\<rparr>))" for a b
    using inv1 by (simp add: flow_once_def reported_once_owner)
  have same: "flow_once sink0 nVerts (Next (ovi1, st1))"
    using inv1 by (simp add: flow_once_def)
  have bow: "flow_once sink0 nVerts
      (Next (ovi1,
         st1\<lparr>b_msgs := Some ((if b_result st1 then ms @ [BowtieExplanation] else ms)
                              @ [BowtieFound j curFace g]),
             b_result := False,
             vertexBowtie := (vertexBowtie st1)[j := True]\<rparr>))"
    if "j < nVerts" "\<not> vertexBowtie st1 ! j" "b_msgs st1 = Some ms" for ms g
    using reported_once_bowtie [OF inv1 that] by (simp add: flow_once_def)
  have "orbit_visit it indices nFaces nVerts face ovi st =
     (if nFaces \<le> curFace then Exit (Returns E_FAIL (b_msgs st))
      else if 2 < curPoint then Exit (Returns E_FAIL (b_msgs st))
      else if nVerts \<le> j then Exit (OutOfBounds j nVerts)
      else if faceIds st1 ! j = - 1 then
        Next (ovi1, st1\<lparr>faceIds := (faceIds st1)[j := of_nat face],
                        faceUsing := (faceUsing st1)[j := of_nat curFace]\<rparr>)
      else if faceIds st1 ! j \<noteq> of_nat face \<and> \<not> vertexBowtie st1 ! j then
        (case b_msgs st1 of
           None \<Rightarrow> Exit (Returns E_FAIL None)
         | Some ms \<Rightarrow>
             Next (ovi1,
               st1\<lparr>b_msgs :=
                      Some ((if b_result st1 then ms @ [BowtieExplanation] else ms)
                            @ [BowtieFound j curFace (unat (faceUsing st1 ! j))]),
                    b_result := False,
                    vertexBowtie := (vertexBowtie st1)[j := True]\<rparr>))
      else Next (ovi1, st1))"
    unfolding orbit_visit_def Let_def curFace_def ovi1_def curPoint_def st1_def j_def
    by simp
  moreover have "flow_once sink0 nVerts (Exit (OutOfBounds j nVerts))"
    by (simp add: flow_once_def)
  ultimately show ?thesis
    using ex ex1 own same bow
    by (cases "b_msgs st1") (auto simp del: not_le)
qed

lemma orbit_walk_once:
  assumes "orbit_walk it indices nFaces nVerts face ovi st = Some fl"
    and "reported_once sink0 nVerts st"
  shows "flow_once sink0 nVerts fl"
  using assms
proof (induction arbitrary: rule: orbit_walk.raw_induct [rotated 1, consumes 1])
  case (1 walk it indices nFaces nVerts face ovi st fl)
  show ?case
  proof (cases "is_done it ovi")
    case True
    then show ?thesis using 1(2,3) by (auto simp: flow_once_def)
  next
    case False
    show ?thesis
    proof (cases "orbit_visit it indices nFaces nVerts face ovi st")
      case (Exit r)
      then show ?thesis
        using 1(2) False orbit_visit_once [OF 1(3), of it indices nFaces face ovi] by auto
    next
      case (Next os)
      then have w: "walk it indices nFaces nVerts face (fst os) (snd os) = Some fl"
        using 1(2) False by simp
      have "reported_once sink0 nVerts (snd os)"
        using orbit_visit_once [OF 1(3), of it indices nFaces face ovi] Next
        by (simp add: flow_once_def)
      then show ?thesis using 1(1) [OF w] by simp
    qed
  qed
qed

lemma bowtie_point_once:
  assumes "bowtie_point it indices nFaces nVerts face point os = Some fl"
    and "reported_once sink0 nVerts (snd os)"
  shows "flow_once sink0 nVerts fl"
proof (cases "faceSeen (snd os) ! (face * 3 + point)")
  case True
  then show ?thesis using assms by (auto simp: bowtie_point_def Let_def flow_once_def)
next
  case False
  let ?st1 = "(snd os)\<lparr>faceSeen := (faceSeen (snd os))[face * 3 + point := True]\<rparr>"
  have inv: "reported_once sink0 nVerts ?st1"
    using assms(2) by (simp add: reported_once_faceSeen)
  have "orbit_walk it indices nFaces nVerts face
      (moveToCCW it (initialize it (fst os) (of_nat face) (indices ! (face * 3 + point)) WALK_ALL))
      ?st1 = Some fl"
    using assms(1) False by (simp add: bowtie_point_def Let_def)
  then show ?thesis by (rule orbit_walk_once [OF _ inv])
qed

lemma bowtie_points_once:
  assumes "bowtie_points it indices nFaces nVerts face point os = Some fl"
    and "reported_once sink0 nVerts (snd os)"
  shows "flow_once sink0 nVerts fl"
  using assms
proof (induction it indices nFaces nVerts face point os rule: bowtie_points.induct)
  case (1 it indices nFaces nVerts face point os)
  show ?case
  proof (cases "point < 3")
    case False
    then show ?thesis
      using "1.prems" by (subst (asm) bowtie_points.simps) (auto simp: flow_once_def)
  next
    case True
    note step = "1.prems"(1) [unfolded bowtie_points.simps [of it indices nFaces nVerts face point os]]
    show ?thesis
    proof (cases "bowtie_point it indices nFaces nVerts face point os")
      case None
      then show ?thesis using step True by simp
    next
      case (Some f1)
      note p = bowtie_point_once [OF Some "1.prems"(2)]
      show ?thesis
      proof (cases f1)
        case (Exit r)
        then show ?thesis using step True Some p by simp
      next
        case (Next os1)
        then have "reported_once sink0 nVerts (snd os1)" using p by (simp add: flow_once_def)
        moreover have "bowtie_points it indices nFaces nVerts face (Suc point) os1 = Some fl"
          using step True Some Next by simp
        ultimately show ?thesis using "1.IH" [OF True Some Next] by simp
      qed
    qed
  qed
qed

lemma bowtie_faces_once:
  assumes "bowtie_faces it indices nFaces nVerts face os = Some fl"
    and "reported_once sink0 nVerts (snd os)"
  shows "flow_once sink0 nVerts fl"
  using assms
proof (induction it indices nFaces nVerts face os rule: bowtie_faces.induct)
  case (1 it indices nFaces nVerts face os)
  note step = "1.prems"(1) [unfolded bowtie_faces.simps [of it indices nFaces nVerts face os]]
  show ?case
  proof (cases "face < nFaces")
    case False
    then show ?thesis using step "1.prems"(2) by (auto simp: flow_once_def)
  next
    case True
    show ?thesis
    proof (cases "degenerate indices face")
      case dg: True
      show ?thesis
        using "1.IH"(1) [OF True dg] step True dg "1.prems"(2)
        by (simp add: reported_once_faceSeen)
    next
      case nd: False
      show ?thesis
      proof (cases "bowtie_points it indices nFaces nVerts face 0 os")
        case None
        then show ?thesis using step True nd by simp
      next
        case (Some f1)
        note p = bowtie_points_once [OF Some "1.prems"(2)]
        show ?thesis
        proof (cases f1)
          case (Exit r)
          then show ?thesis using step True nd Some p by simp
        next
          case (Next os1)
          then have "reported_once sink0 nVerts (snd os1)" using p by (simp add: flow_once_def)
          moreover have "bowtie_faces it indices nFaces nVerts (Suc face) os1 = Some fl"
            using step True nd Some Next by simp
          ultimately show ?thesis using "1.IH"(2) [OF True nd Some Next] by simp
        qed
      qed
    qed
  qed
qed

lemma reported_once_init: "reported_once msgs nVerts (bowtie_init nFaces nVerts msgs)"
  by (cases msgs) (simp_all add: reported_once_def bowtie_init_def bowties_at_simps)

lemma sink_once_refl: "sink_once msgs msgs"
  by (cases msgs) (simp_all add: sink_once_def bowties_at_simps)

lemma ValidateNoBowties_once:
  assumes "ValidateNoBowties it alloc indices nFaces nVerts adjacency msgs = Some (Returns hr msgs1)"
  shows "sink_once msgs msgs1"
proof (cases adjacency)
  case None
  then have "msgs1 = map_option (\<lambda>ms. ms @ [MissingAdjacencyBowties]) msgs"
    using assms by (simp add: ValidateNoBowties_def)
  then show ?thesis by (cases msgs) (simp_all add: sink_once_def bowties_at_simps)
next
  case (Some adj)
  show ?thesis
  proof (cases "alloc (tsize indices nFaces nVerts)")
    case False
    then show ?thesis using assms Some by (simp add: ValidateNoBowties_def sink_once_refl)
  next
    case True
    let ?fl = "bowtie_faces it indices nFaces nVerts 0
                 (construct it adj indices nFaces, bowtie_init nFaces nVerts msgs)"
    have fin: "bowtie_finish ?fl = Some (Returns hr msgs1)"
      using assms Some True by (simp add: ValidateNoBowties_def split: if_splits)
    then obtain fl where fl: "?fl = Some fl" by (cases ?fl) (simp_all add: bowtie_finish_def)
    have "flow_once msgs nVerts fl"
      by (rule bowtie_faces_once [OF fl]) (simp add: reported_once_init)
    then show ?thesis
      using fin fl
      by (cases fl) (auto simp: bowtie_finish_def flow_once_def dest: reported_once_sink_once)
  qed
qed

lemma bowties_at_concat:
  "(\<And>xs. xs \<in> set xss \<Longrightarrow> bowties_at j xs = 0) \<Longrightarrow> bowties_at j (concat xss) = 0"
  by (induction xss) (simp_all add: bowties_at_simps)

lemma bowties_at_spec_face_violations:
  "bowties_at j (spec_face_violations indices nFaces nVerts adjacency flags face) = 0"
  by (simp add: spec_face_violations_def spec_corner_violations_def bowties_at_def Let_def
      split: option.splits)

lemma bowties_at_spec_violations:
  "bowties_at j (spec_violations indices nFaces nVerts adjacency flags) = 0"
  unfolding spec_violations_def
  by (rule bowties_at_concat) (auto simp: bowties_at_spec_face_violations)

lemma ValidateIndices_appends:
  "\<exists>new. snd (ValidateIndices indices nFaces nVerts adjacency flags (Some ms)) = Some (ms @ new) \<and>
      (\<forall>j. bowties_at j new = 0)"
proof (cases "flag_set flags VALIDATE_BACKFACING \<and> adjacency = None")
  case True
  then have "snd (ValidateIndices indices nFaces nVerts adjacency flags (Some ms))
      = Some (ms @ [MissingAdjacencyBackfacing])"
    by (simp add: ValidateIndices_def)
  then show ?thesis by (auto simp: bowties_at_simps)
next
  case False
  then have pre: "flag_set flags VALIDATE_BACKFACING \<longrightarrow> adjacency \<noteq> None" by simp
  show ?thesis
    by (auto simp: ValidateIndices_sink [OF pre] bowties_at_spec_violations)
qed

lemma ValidateIndices_null_sink:
  "snd (ValidateIndices indices nFaces nVerts adjacency flags None) = None"
proof (cases "flag_set flags VALIDATE_BACKFACING \<and> adjacency = None")
  case True
  then show ?thesis by (simp add: ValidateIndices_def)
next
  case False
  then have pre: "flag_set flags VALIDATE_BACKFACING \<longrightarrow> adjacency \<noteq> None" by simp
  show ?thesis by (simp add: ValidateIndices_no_sink [OF pre])
qed

text \<open>The part of an entry point after its argument checks, as a function of the cleared sink.\<close>

lemma Validate_entered:
  assumes "nFaces \<noteq> 0" "nVerts \<noteq> 0" "(nFaces * 3) mod 2 ^ 64 \<le> 0xFFFFFFFF"
  shows "Validate it alloc (Some idx) nFaces nVerts adjacency flags msgs =
     (let r = ValidateIndices idx nFaces nVerts adjacency flags (map_option (\<lambda>ms. []) msgs) in
      if FAILED (fst r) then Some (Returns (fst r) (snd r))
      else if flag_set flags VALIDATE_BOWTIES then
        (case ValidateNoBowties it alloc idx nFaces nVerts adjacency (snd r) of
           None \<Rightarrow> None
         | Some (OutOfBounds p n) \<Rightarrow> Some (OutOfBounds p n)
         | Some (Returns hr msgs2) \<Rightarrow>
             if FAILED hr then Some (Returns hr msgs2) else Some (Returns S_OK msgs2))
      else Some (Returns S_OK (snd r)))"
  using assms by (simp add: Validate_def Let_def)

lemma Validate_entered_once:
  assumes ent: "nFaces \<noteq> 0" "nVerts \<noteq> 0" "(nFaces * 3) mod 2 ^ 64 \<le> 0xFFFFFFFF"
    and res: "Validate it alloc (Some idx) nFaces nVerts adjacency flags msgs
        = Some (Returns hr msgs1)"
  shows "sink_once (map_option (\<lambda>ms. []) msgs) msgs1"
proof -
  let ?c = "map_option (\<lambda>ms. []) msgs"
  let ?r = "ValidateIndices idx nFaces nVerts adjacency flags ?c"
  have vi: "\<exists>new. snd ?r = map_option (\<lambda>ms. new) msgs \<and> (\<forall>j. bowties_at j new = 0)"
  proof (cases msgs)
    case None
    have "snd ?r = map_option (\<lambda>ms. []) msgs \<and> (\<forall>j. bowties_at j [] = 0)"
      using None by (simp add: ValidateIndices_null_sink bowties_at_simps)
    then show ?thesis by blast
  next
    case (Some ms)
    then show ?thesis
      using ValidateIndices_appends [of idx nFaces nVerts adjacency flags "[]"] by auto
  qed
  then obtain vs where vs: "snd ?r = map_option (\<lambda>ms. vs) msgs" "\<And>j. bowties_at j vs = 0"
    by blast
  have a: "sink_once ?c (snd ?r)"
    using vs by (cases msgs) (simp_all add: sink_once_def)
  have b: "sink_once ?c m" if "sink_once (snd ?r) m" for m
    using that vs by (cases msgs) (auto simp: sink_once_def bowties_at_simps)
  note v = res [unfolded Validate_entered [OF ent] Let_def]
  show ?thesis
  proof (cases "FAILED (fst ?r)")
    case True
    then show ?thesis using v a by simp
  next
    case nf: False
    show ?thesis
    proof (cases "flag_set flags VALIDATE_BOWTIES")
      case False
      then show ?thesis using v nf a by simp
    next
      case True
      obtain hr2 where "ValidateNoBowties it alloc idx nFaces nVerts adjacency (snd ?r)
          = Some (Returns hr2 msgs1)"
        using v nf True by (auto split: option.splits outcome.splits if_splits)
      then show ?thesis using b ValidateNoBowties_once by blast
    qed
  qed
qed

text \<open>
  Claim C5. Among the texts a call of \<open>ValidateNoBowties\<close> appends to its sink, no vertex
  has more than one "Bowtie found around vertex" text, whatever the orbit iterator does
  and however many walks pass through the vertex: the text is appended only while the
  vertex's flag in \<open>vertexBowtie\<close> is clear, and appending it sets the flag. The same holds
  of the whole sink after a call of an entry point that got past its argument checks,
  since the sink is cleared first and index validation appends no such text.
\<close>

theorem bowtie_reported_once:
  "(ValidateNoBowties it alloc indices nFaces nVerts adjacency (Some ms) = Some (Returns hr msgs1)
      \<longrightarrow> (\<exists>new. msgs1 = Some (ms @ new) \<and> (\<forall>j. bowties_at j new \<le> 1))) \<and>
   (nFaces \<noteq> 0 \<and> nVerts \<noteq> 0 \<and> (nFaces * 3) mod 2 ^ 64 \<le> 0xFFFFFFFF \<and>
    Validate it alloc (Some indices) nFaces nVerts adjacency flags msgs = Some (Returns hr' msgs2)
      \<longrightarrow> (\<forall>j. bowties_at j (diagnostics msgs2) \<le> 1))"
proof (intro conjI impI)
  assume "ValidateNoBowties it alloc indices nFaces nVerts adjacency (Some ms)
      = Some (Returns hr msgs1)"
  from ValidateNoBowties_once [OF this]
  show "\<exists>new. msgs1 = Some (ms @ new) \<and> (\<forall>j. bowties_at j new \<le> 1)"
    by (simp add: sink_once_def)
next
  assume a: "nFaces \<noteq> 0 \<and> nVerts \<noteq> 0 \<and> (nFaces * 3) mod 2 ^ 64 \<le> 0xFFFFFFFF \<and>
    Validate it alloc (Some indices) nFaces nVerts adjacency flags msgs = Some (Returns hr' msgs2)"
  then have "sink_once (map_option (\<lambda>ms. []) msgs) msgs2"
    using Validate_entered_once [of nFaces nVerts it alloc indices adjacency flags msgs hr' msgs2]
    by simp
  then show "\<forall>j. bowties_at j (diagnostics msgs2) \<le> 1"
    by (cases msgs) (auto simp: sink_once_def diagnostics_def bowties_at_simps)
qed

lemma three_fans_indices:
  "ValidateIndices [0, 1, 2, 0, 3, 4, 0, 5, 6 :: uint16_t] 3 7
     (Some [UNUSED32, UNUSED32, UNUSED32, UNUSED32, UNUSED32, UNUSED32, UNUSED32, UNUSED32, UNUSED32])
     VALIDATE_BOWTIES (Some []) = (S_OK, Some [])"
  by code_simp

lemma three_fans_bowties:
  "ValidateNoBowties spec_orbit (\<lambda>n. True) [0, 1, 2, 0, 3, 4, 0, 5, 6 :: uint16_t] 3 7
     (Some [UNUSED32, UNUSED32, UNUSED32, UNUSED32, UNUSED32, UNUSED32, UNUSED32, UNUSED32, UNUSED32])
     (Some []) = Some (Returns E_FAIL (Some [BowtieExplanation, BowtieFound 0 1 0]))"
  by code_simp

lemma three_fans:
  "Validate spec_orbit (\<lambda>n. True) (Some [0, 1, 2, 0, 3, 4, 0, 5, 6 :: uint16_t]) 3 7
     (Some [UNUSED32, UNUSED32, UNUSED32, UNUSED32, UNUSED32, UNUSED32, UNUSED32, UNUSED32, UNUSED32])
     VALIDATE_BOWTIES (Some [])
   = Some (Returns E_FAIL (Some [BowtieExplanation, BowtieFound 0 1 0]))"
proof -
  have ent: "(3::nat) \<noteq> 0" "(7::nat) \<noteq> 0" "((3::nat) * 3) mod 2 ^ 64 \<le> 0xFFFFFFFF"
    by simp_all
  have fl: "flag_set VALIDATE_BOWTIES VALIDATE_BOWTIES"
    by (simp add: flag_set_def VALIDATE_BOWTIES_def)
  show ?thesis
    by (simp add: Validate_entered [OF ent] three_fans_indices three_fans_bowties fl FAILED_def)
qed

theorem bowtie_reported_once_witness:
  "Validate spec_orbit (\<lambda>n. True) (Some [0, 1, 2, 0, 3, 4, 0, 5, 6 :: uint16_t]) 3 7
     (Some [UNUSED32, UNUSED32, UNUSED32, UNUSED32, UNUSED32, UNUSED32, UNUSED32, UNUSED32, UNUSED32])
     VALIDATE_BOWTIES (Some [])
   = Some (Returns E_FAIL (Some [BowtieExplanation, BowtieFound 0 1 0])) \<and>
   (\<forall>j. bowties_at j [BowtieExplanation, BowtieFound 0 1 0] \<le> 1)"
  using three_fans
    bowtie_reported_once [where it = spec_orbit and alloc = "\<lambda>n. True"
      and indices = "[0, 1, 2, 0, 3, 4, 0, 5, 6 :: uint16_t]" and nFaces = 3 and nVerts = 7
      and adjacency = "Some [UNUSED32, UNUSED32, UNUSED32, UNUSED32, UNUSED32, UNUSED32,
         UNUSED32, UNUSED32, UNUSED32]"
      and flags = VALIDATE_BOWTIES and msgs = "Some []" and hr' = E_FAIL
      and ?msgs2.0 = "Some [BowtieExplanation, BowtieFound 0 1 0]" and ms = "[]"]
  by (simp add: diagnostics_def)

text \<open>
  Claim C9. Running an entry point again on the same arguments, with the sink as the first
  run left it, returns the same status and leaves the same sink. The scratch allocation
  is taken to succeed or fail alike in both runs.
\<close>

theorem Validate_idempotent:
  assumes "Validate it alloc indices nFaces nVerts adjacency flags msgs = Some (Returns hr msgs1)"
  shows "Validate it alloc indices nFaces nVerts adjacency flags msgs1 = Some (Returns hr msgs1)"
proof (cases "indices = None \<or> nFaces = 0 \<or> nVerts = 0 \<or> 0xFFFFFFFF < (nFaces * 3) mod 2 ^ 64")
  case True
  then have "\<And>m. Validate it alloc indices nFaces nVerts adjacency flags m
      = Some (Returns (if indices = None \<or> nFaces = 0 \<or> nVerts = 0 then E_INVALIDARG
                        else ERROR_ARITHMETIC_OVERFLOW) m)"
    by (auto simp: Validate_def split: option.splits)
  then show ?thesis using assms by simp
next
  case False
  then obtain idx where idx: "indices = Some idx" by auto
  have ent: "nFaces \<noteq> 0" "nVerts \<noteq> 0" "(nFaces * 3) mod 2 ^ 64 \<le> 0xFFFFFFFF"
    using False by simp_all
  have "sink_once (map_option (\<lambda>ms. []) msgs) msgs1"
    using Validate_entered_once [OF ent] assms idx by simp
  then have eq: "map_option (\<lambda>ms. []) msgs1 = map_option (\<lambda>ms. []) msgs"
    by (cases msgs) (auto simp: sink_once_def)
  have "Validate it alloc (Some idx) nFaces nVerts adjacency flags msgs1
      = Validate it alloc (Some idx) nFaces nVerts adjacency flags msgs"
    by (simp only: Validate_entered [OF ent] eq)
  then show ?thesis using assms idx by simp
qed

theorem Validate_idempotent_witness:
  "Validate spec_orbit (\<lambda>n. True) (Some [0, 1, 2, 0, 3, 4, 0, 5, 6 :: uint16_t]) 3 7
     (Some [UNUSED32, UNUSED32, UNUSED32, UNUSED32, UNUSED32, UNUSED32, UNUSED32, UNUSED32, UNUSED32])
     VALIDATE_BOWTIES (Some [])
   = Some (Returns E_FAIL (Some [BowtieExplanation, BowtieFound 0 1 0])) \<and>
   Validate spec_orbit (\<lambda>n. True) (Some [0, 1, 2, 0, 3, 4, 0, 5, 6 :: uint16_t]) 3 7
     (Some [UNUSED32, UNUSED32, UNUSED32, UNUSED32, UNUSED32, UNUSED32, UNUSED32, UNUSED32, UNUSED32])
     VALIDATE_BOWTIES (Some [BowtieExplanation, BowtieFound 0 1 0])
   = Some (Returns E_FAIL (Some [BowtieExplanation, BowtieFound 0 1 0]))"
  using three_fans Validate_idempotent [OF three_fans] by simp

subsection \<open>The sentinel as a table position\<close>

text \<open>
  Claim C10 fails on the code. A face that is not degenerate and has the sentinel at a
  corner passes index validation, which takes the sentinel for a legal index. The bowtie
  detector then walks around that corner and uses the vertex index it finds there, the
  sentinel, as the position \<open>j\<close> in \<open>faceIds\<close> (line 219): position 65535, or 4294967295
  with 32-bit indices, in tables of \<open>nVerts = 2\<close> entries.
\<close>

theorem sentinel_vertex_out_of_bounds:
  "ValidateIndices [0, 1, 0xFFFF :: uint16_t] 1 2 (Some [UNUSED32, UNUSED32, UNUSED32])
     VALIDATE_BOWTIES None = (S_OK, None) \<and>
   \<not> degenerate [0, 1, 0xFFFF :: uint16_t] 0 \<and>
   Validate16 spec_orbit (\<lambda>n. True) (Some [0, 1, 0xFFFF]) 1 2
     (Some [UNUSED32, UNUSED32, UNUSED32]) VALIDATE_BOWTIES None
     = Some (OutOfBounds 65535 2) \<and>
   Validate32 spec_orbit (\<lambda>n. True) (Some [0, 1, 0xFFFFFFFF]) 1 2
     (Some [UNUSED32, UNUSED32, UNUSED32]) VALIDATE_BOWTIES None
     = Some (OutOfBounds 4294967295 2)"
proof -
  have a: "ValidateIndices [0, 1, 0xFFFF :: uint16_t] 1 2 (Some [UNUSED32, UNUSED32, UNUSED32])
     VALIDATE_BOWTIES None = (S_OK, None)"
    by code_simp
  have b: "\<not> degenerate [0, 1, 0xFFFF :: uint16_t] 0"
    by code_simp
  have c: "Validate16 spec_orbit (\<lambda>n. True) (Some [0, 1, 0xFFFF]) 1 2
     (Some [UNUSED32, UNUSED32, UNUSED32]) VALIDATE_BOWTIES None
     = Some (OutOfBounds 65535 2)"
    by code_simp
  have d: "Validate32 spec_orbit (\<lambda>n. True) (Some [0, 1, 0xFFFFFFFF]) 1 2
     (Some [UNUSED32, UNUSED32, UNUSED32]) VALIDATE_BOWTIES None
     = Some (OutOfBounds 4294967295 2)"
    by code_simp
  show ?thesis using a b c d by simp
qed

subsection \<open>A broken adjacency link\<close>







subsection \<open>Face ids in tables of vertex indices\<close>

lemma bowtie_faces_degenerate:
  "face < nFaces \<Longrightarrow> degenerate indices face \<Longrightarrow>
   bowtie_faces it indices nFaces nVerts face (ovi, st) =
     bowtie_faces it indices nFaces nVerts (Suc face)
       (ovi, st\<lparr>faceSeen := (faceSeen st)
           [face * 3 := True, face * 3 + 1 := True, face * 3 + 2 := True]\<rparr>)"
  by (subst bowtie_faces.simps) simp

lemma bowtie_faces_skip:
  assumes "\<And>f. a \<le> f \<Longrightarrow> f < b \<Longrightarrow> degenerate indices f" and "b \<le> nFaces" and "a \<le> b"
  shows "\<exists>fs. (\<forall>i. b * 3 \<le> i \<longrightarrow> fs ! i = faceSeen st ! i) \<and>
     bowtie_faces it indices nFaces nVerts a (ovi, st) =
     bowtie_faces it indices nFaces nVerts b (ovi, st\<lparr>faceSeen := fs\<rparr>)"
  using assms
proof (induction "b - a" arbitrary: a st)
  case 0
  then have "a = b" by simp
  then have "(\<forall>i. b * 3 \<le> i \<longrightarrow> faceSeen st ! i = faceSeen st ! i) \<and>
     bowtie_faces it indices nFaces nVerts a (ovi, st) =
     bowtie_faces it indices nFaces nVerts b (ovi, st\<lparr>faceSeen := faceSeen st\<rparr>)"
    by simp
  then show ?case by blast
next
  case (Suc n)
  then have lt: "a < b" by simp
  let ?st = "st\<lparr>faceSeen := (faceSeen st)
           [a * 3 := True, a * 3 + 1 := True, a * 3 + 2 := True]\<rparr>"
  have step: "bowtie_faces it indices nFaces nVerts a (ovi, st) =
     bowtie_faces it indices nFaces nVerts (Suc a) (ovi, ?st)"
    using lt Suc.prems by (intro bowtie_faces_degenerate) simp_all
  have n: "n = b - Suc a" using Suc.hyps(2) by simp
  have dg: "\<And>f. Suc a \<le> f \<Longrightarrow> f < b \<Longrightarrow> degenerate indices f"
    using Suc.prems(1) by simp
  have le: "Suc a \<le> b" using lt by simp
  from Suc.hyps(1) [OF n dg Suc.prems(2) le, of ?st]
  obtain fs where fs: "\<forall>i. b * 3 \<le> i \<longrightarrow> fs ! i = faceSeen ?st ! i"
    "bowtie_faces it indices nFaces nVerts (Suc a) (ovi, ?st) =
     bowtie_faces it indices nFaces nVerts b (ovi, ?st\<lparr>faceSeen := fs\<rparr>)"
    by blast
  have "\<forall>i. b * 3 \<le> i \<longrightarrow> fs ! i = faceSeen st ! i"
    using fs(1) lt by auto
  moreover have "bowtie_faces it indices nFaces nVerts a (ovi, st) =
     bowtie_faces it indices nFaces nVerts b (ovi, st\<lparr>faceSeen := fs\<rparr>)"
    using step fs(2) by simp
  ultimately show ?case by blast
qed

lemma spec_orbit_isolated:
  fixes indices :: "'a::len word list"
  assumes mesh: "o_adjacency s = adj" "o_indices s = indices" "o_nFaces s = nFaces"
    and face: "face < nFaces" "nFaces < 2 ^ 32" and point: "point < 3"
    and corner: "find_corner indices nFaces (of_nat face) (indices ! (face * 3 + point)) = of_nat point"
    and iso: "adj ! (face * 3) = UNUSED32" "adj ! (face * 3 + 1) = UNUSED32"
      "adj ! (face * 3 + 2) = UNUSED32"
  defines "ovi0 \<equiv> moveToCCW spec_orbit
      (initialize spec_orbit s (of_nat face) (indices ! (face * 3 + point)) WALK_ALL)"
  shows "\<not> is_done spec_orbit ovi0"
    and "unat (fst (nextFace spec_orbit ovi0)) = face"
    and "unat (getpoint spec_orbit (snd (nextFace spec_orbit ovi0))) = point"
    and "is_done spec_orbit (snd (nextFace spec_orbit ovi0))"
    and "o_adjacency (snd (nextFace spec_orbit ovi0)) = adj"
    and "o_indices (snd (nextFace spec_orbit ovi0)) = indices"
    and "o_nFaces (snd (nextFace spec_orbit ovi0)) = nFaces"
proof -
  have uf: "unat (of_nat face :: uint32_t) = face"
    using face by (simp add: unat_of_nat take_bit_nat_eq_self)
  have up: "unat (of_nat point :: uint32_t) = point"
    using point by (simp add: unat_of_nat take_bit_nat_eq_self)
  have p3: "(point + 2) mod 3 < 3" by simp
  have any: "adj ! (face * 3 + p) = UNUSED32" if "p < 3" for p
  proof -
    from that have "p = 0 \<or> p = 1 \<or> p = 2" by arith
    then show ?thesis using iso by auto
  qed
  have e1: "adj ! (face * 3 + point) = UNUSED32"
    using point by (rule any)
  have e2: "adj ! (face * 3 + Suc (Suc point) mod 3) = UNUSED32"
    using any [OF p3] by simp
  have c2: "\<not> 2 < point" using point by simp
  have o0: "ovi0 = s\<lparr>o_start := of_nat face, o_pivot := indices ! (face * 3 + point),
       o_face := of_nat face, o_corner := of_nat point, o_point := of_nat point,
       o_direction := WALK_ALL, o_clockwise := True, o_done := False\<rparr>"
    unfolding ovi0_def by (simp add: spec_orbit_def orbit_initialize_def mesh corner)
  show "\<not> is_done spec_orbit ovi0" by (simp add: o0 spec_orbit_def)
  have st: "orbit_step ovi0 = ovi0\<lparr>o_clockwise := False, o_done := True\<rparr>"
    using face(1) c2
    by (simp add: o0 orbit_step_def orbit_follow_def orbit_entry_def mesh uf up e1 e2 corner
        Let_def)
  show "unat (fst (nextFace spec_orbit ovi0)) = face"
    by (simp add: spec_orbit_def orbit_nextFace_def o0 uf)
  show "unat (getpoint spec_orbit (snd (nextFace spec_orbit ovi0))) = point"
    by (simp add: spec_orbit_def orbit_nextFace_def st) (simp add: o0 up)
  show "is_done spec_orbit (snd (nextFace spec_orbit ovi0))"
    by (simp add: spec_orbit_def orbit_nextFace_def st)
  show "o_adjacency (snd (nextFace spec_orbit ovi0)) = adj"
    by (simp add: spec_orbit_def orbit_nextFace_def st) (simp add: o0 mesh)
  show "o_indices (snd (nextFace spec_orbit ovi0)) = indices"
    by (simp add: spec_orbit_def orbit_nextFace_def st) (simp add: o0 mesh)
  show "o_nFaces (snd (nextFace spec_orbit ovi0)) = nFaces"
    by (simp add: spec_orbit_def orbit_nextFace_def st) (simp add: o0 mesh)
qed


lemma bowtie_point_isolated:
  fixes indices :: "'a::len word list"
  assumes mesh: "o_adjacency s = adj" "o_indices s = indices" "o_nFaces s = nFaces"
    and face: "face < nFaces" "nFaces < 2 ^ 32" and point: "point < 3"
    and corner: "find_corner indices nFaces (of_nat face) (indices ! (face * 3 + point)) = of_nat point"
    and iso: "adj ! (face * 3) = UNUSED32" "adj ! (face * 3 + 1) = UNUSED32"
      "adj ! (face * 3 + 2) = UNUSED32"
    and unseen: "\<not> faceSeen st ! (face * 3 + point)"
  defines "j \<equiv> unat (indices ! (face * 3 + point))"
    and "st1 \<equiv> st\<lparr>faceSeen := (faceSeen st)[face * 3 + point := True]\<rparr>"
  shows "\<exists>s'. o_adjacency s' = adj \<and> o_indices s' = indices \<and> o_nFaces s' = nFaces \<and>
     bowtie_point spec_orbit indices nFaces nVerts face point (s, st) = Some
       (if nVerts \<le> j then Exit (OutOfBounds j nVerts)
        else if faceIds st ! j = - 1 then
          Next (s', st1\<lparr>faceIds := (faceIds st)[j := of_nat face],
                        faceUsing := (faceUsing st)[j := of_nat face]\<rparr>)
        else if faceIds st ! j \<noteq> of_nat face \<and> \<not> vertexBowtie st ! j then
          (case b_msgs st of
             None \<Rightarrow> Exit (Returns E_FAIL None)
           | Some ms \<Rightarrow>
               Next (s', st1\<lparr>b_msgs :=
                               Some ((if b_result st then ms @ [BowtieExplanation] else ms)
                                     @ [BowtieFound j face (unat (faceUsing st ! j))]),
                             b_result := False,
                             vertexBowtie := (vertexBowtie st)[j := True]\<rparr>))
        else Next (s', st1))"
proof -
  define ovi0 where "ovi0 = moveToCCW spec_orbit
      (initialize spec_orbit s (of_nat face) (indices ! (face * 3 + point)) WALK_ALL)"
  define ovi1 where "ovi1 = snd (nextFace spec_orbit ovi0)"
  note iso' = spec_orbit_isolated [OF mesh face point corner iso, folded ovi0_def ovi1_def]
  have fin: "orbit_walk spec_orbit indices nFaces nVerts face ovi1 st' = Some (Next (ovi1, st'))"
    for st'
    using iso'(4) by (subst orbit_walk.simps) simp
  have c2: "\<not> 2 < point" and f2: "\<not> nFaces \<le> face" using point face(1) by simp_all
  have visit: "orbit_visit spec_orbit indices nFaces nVerts face ovi0 st1 =
       (if nVerts \<le> j then Exit (OutOfBounds j nVerts)
        else if faceIds st ! j = - 1 then
          Next (ovi1, st1\<lparr>faceIds := (faceIds st)[j := of_nat face],
                        faceUsing := (faceUsing st)[j := of_nat face]\<rparr>)
        else if faceIds st ! j \<noteq> of_nat face \<and> \<not> vertexBowtie st ! j then
          (case b_msgs st of
             None \<Rightarrow> Exit (Returns E_FAIL None)
           | Some ms \<Rightarrow>
               Next (ovi1, st1\<lparr>b_msgs :=
                               Some ((if b_result st then ms @ [BowtieExplanation] else ms)
                                     @ [BowtieFound j face (unat (faceUsing st ! j))]),
                             b_result := False,
                             vertexBowtie := (vertexBowtie st)[j := True]\<rparr>))
        else Next (ovi1, st1))"
    using c2 f2
    by (simp add: orbit_visit_def iso'(2,3) ovi1_def [symmetric] Let_def st1_def j_def
        split: option.split)
  have walk: "orbit_walk spec_orbit indices nFaces nVerts face ovi0 st1 = Some
       (if nVerts \<le> j then Exit (OutOfBounds j nVerts)
        else if faceIds st ! j = - 1 then
          Next (ovi1, st1\<lparr>faceIds := (faceIds st)[j := of_nat face],
                        faceUsing := (faceUsing st)[j := of_nat face]\<rparr>)
        else if faceIds st ! j \<noteq> of_nat face \<and> \<not> vertexBowtie st ! j then
          (case b_msgs st of
             None \<Rightarrow> Exit (Returns E_FAIL None)
           | Some ms \<Rightarrow>
               Next (ovi1, st1\<lparr>b_msgs :=
                               Some ((if b_result st then ms @ [BowtieExplanation] else ms)
                                     @ [BowtieFound j face (unat (faceUsing st ! j))]),
                             b_result := False,
                             vertexBowtie := (vertexBowtie st)[j := True]\<rparr>))
        else Next (ovi1, st1))"
    by (subst orbit_walk.simps) (simp add: iso'(1) visit fin split: option.split)
  have "bowtie_point spec_orbit indices nFaces nVerts face point (s, st) =
      orbit_walk spec_orbit indices nFaces nVerts face ovi0 st1"
    using unseen by (simp add: bowtie_point_def Let_def ovi0_def st1_def)
  then have "bowtie_point spec_orbit indices nFaces nVerts face point (s, st) = Some
       (if nVerts \<le> j then Exit (OutOfBounds j nVerts)
        else if faceIds st ! j = - 1 then
          Next (ovi1, st1\<lparr>faceIds := (faceIds st)[j := of_nat face],
                        faceUsing := (faceUsing st)[j := of_nat face]\<rparr>)
        else if faceIds st ! j \<noteq> of_nat face \<and> \<not> vertexBowtie st ! j then
          (case b_msgs st of
             None \<Rightarrow> Exit (Returns E_FAIL None)
           | Some ms \<Rightarrow>
               Next (ovi1, st1\<lparr>b_msgs :=
                               Some ((if b_result st then ms @ [BowtieExplanation] else ms)
                                     @ [BowtieFound j face (unat (faceUsing st ! j))]),
                             b_result := False,
                             vertexBowtie := (vertexBowtie st)[j := True]\<rparr>))
        else Next (ovi1, st1))"
    using walk by (rule trans)
  with iso'(5,6,7) show ?thesis
    by (intro exI [of _ ovi1] conjI)
qed


lemma bowtie_points_three:
  assumes "bowtie_point it indices nFaces nVerts face 0 os = Some (Next os1)"
    and "bowtie_point it indices nFaces nVerts face 1 os1 = Some (Next os2)"
    and "bowtie_point it indices nFaces nVerts face 2 os2 = Some (Next os3)"
  shows "bowtie_points it indices nFaces nVerts face 0 os = Some (Next os3)"
proof -
  have "bowtie_points it indices nFaces nVerts face 3 os3 = Some (Next os3)"
    by (subst bowtie_points.simps) simp
  then have "bowtie_points it indices nFaces nVerts face 2 os2 = Some (Next os3)"
    using assms(3) by (subst bowtie_points.simps) (simp add: numeral_3_eq_3 numeral_2_eq_2)
  then have "bowtie_points it indices nFaces nVerts face 1 os1 = Some (Next os3)"
    using assms(2) by (subst bowtie_points.simps) (simp add: numeral_2_eq_2)
  then show ?thesis
    using assms(1) by (subst bowtie_points.simps) simp
qed

lemma far_faces_share_vertex:
  fixes M :: "'a::len word list"
  assumes M: "M = [v0, v1, v2] @ replicate 196605 v0 @ [v0, v3, v4]"
    and u: "unat v0 = 0" "unat v1 = 1" "unat v2 = 2" "unat v3 = 3" "unat v4 = 4"
  shows "bowtie_finish (bowtie_faces spec_orbit M 65537 5 0
       (orbit_construct (replicate 196611 UNUSED32) M 65537, bowtie_init 65537 5 None)) =
     Some (Returns (if (of_nat 65536 :: 'a word) = 0 then S_OK else E_FAIL) None)"
proof -
  define adj where "adj = replicate 196611 UNUSED32"
  define s0 where "s0 = orbit_construct adj M 65537"
  define st0 :: "'a word bowtie_state" where "st0 = bowtie_init 65537 5 None"
  have adj: "adj ! i = UNUSED32" if "i < 196611" for i
    using that by (simp add: adj_def)
  have ne: "v0 \<noteq> v1" "v0 \<noteq> v2" "v1 \<noteq> v2" "v0 \<noteq> v3" "v0 \<noteq> v4" "v3 \<noteq> v4"
    by (simp_all add: word_unat_eq_iff u)
  have m: "M ! 0 = v0" "M ! Suc 0 = v1" "M ! 2 = v2" "M ! Suc (Suc 0) = v2"
    "M ! 196608 = v0" "M ! 196609 = v3" "M ! 196610 = v4"
    by (simp_all add: M nth_append)
  have mid: "M ! i = v0" if "3 \<le> i" "i < 196608" for i
    using that by (simp add: M nth_append)
  have dg: "degenerate M f" if "1 \<le> f" "f < 65536" for f
    using that by (simp add: degenerate_def mid)
  have nd0: "\<not> degenerate M 0"
    by (simp add: degenerate_def m ne)
  have nd1: "\<not> degenerate M 65536"
    by (simp add: degenerate_def m ne)
  have s0: "o_adjacency s0 = adj" "o_indices s0 = M" "o_nFaces s0 = 65537"
    by (simp_all add: s0_def orbit_construct_def)
  have fc: "find_corner M 65537 0 v0 = 0" "find_corner M 65537 0 v1 = 1"
    "find_corner M 65537 0 v2 = 2" "find_corner M 65537 65536 v0 = 0"
    "find_corner M 65537 65536 v3 = 1" "find_corner M 65537 65536 v4 = 2"
    by (simp_all add: find_corner_def m ne)
  have st0: "faceSeen st0 = replicate 196611 False" "faceIds st0 = replicate 5 (- 1)"
    "vertexBowtie st0 = replicate 5 False" "b_msgs st0 = None" "b_result st0"
    by (simp_all add: st0_def bowtie_init_def)
  define st1 where "st1 = st0\<lparr>faceSeen := (faceSeen st0)[0 := True],
    faceIds := (faceIds st0)[0 := 0], faceUsing := (faceUsing st0)[0 := 0]\<rparr>"
  define st2 where "st2 = st1\<lparr>faceSeen := (faceSeen st1)[1 := True],
    faceIds := (faceIds st1)[1 := 0], faceUsing := (faceUsing st1)[1 := 0]\<rparr>"
  define st3 where "st3 = st2\<lparr>faceSeen := (faceSeen st2)[Suc (Suc 0) := True],
    faceIds := (faceIds st2)[2 := 0], faceUsing := (faceUsing st2)[2 := 0]\<rparr>"
  from bowtie_point_isolated [of s0 adj M 65537 0 0 st0 5]
  obtain s1 where s1: "o_adjacency s1 = adj" "o_indices s1 = M" "o_nFaces s1 = 65537"
    and p1: "bowtie_point spec_orbit M 65537 5 0 0 (s0, st0) = Some (Next (s1, st1))"
    by (auto simp: s0 m fc adj st0 st1_def u)
  from bowtie_point_isolated [of s1 adj M 65537 0 1 st1 5]
  obtain s2 where s2: "o_adjacency s2 = adj" "o_indices s2 = M" "o_nFaces s2 = 65537"
    and p2: "bowtie_point spec_orbit M 65537 5 0 1 (s1, st1) = Some (Next (s2, st2))"
    by (auto simp: s1 m fc adj st0 st1_def st2_def u)
  from bowtie_point_isolated [of s2 adj M 65537 0 2 st2 5]
  obtain s3 where s3: "o_adjacency s3 = adj" "o_indices s3 = M" "o_nFaces s3 = 65537"
    and p3: "bowtie_point spec_orbit M 65537 5 0 2 (s2, st2) = Some (Next (s3, st3))"
    by (auto simp: s2 m fc adj st0 st1_def st2_def st3_def u)
  have f0: "bowtie_faces spec_orbit M 65537 5 0 (s0, st0) =
      bowtie_faces spec_orbit M 65537 5 1 (s3, st3)"
    by (subst bowtie_faces.simps) (simp add: nd0 bowtie_points_three [OF p1 p2 p3])
  from bowtie_faces_skip [of 1 65536 M 65537 st3 spec_orbit 5 s3] dg
  obtain fs where fs: "\<And>i. 196608 \<le> i \<Longrightarrow> fs ! i = faceSeen st3 ! i"
    and f1: "bowtie_faces spec_orbit M 65537 5 1 (s3, st3) =
      bowtie_faces spec_orbit M 65537 5 65536 (s3, st3\<lparr>faceSeen := fs\<rparr>)"
    by auto
  define st4 where "st4 = st3\<lparr>faceSeen := fs\<rparr>"
  have st4: "\<not> faceSeen st4 ! 196608" "\<not> faceSeen st4 ! 196609" "\<not> faceSeen st4 ! 196610"
    "faceIds st4 = (replicate 5 (- 1))[0 := 0, 1 := 0, 2 := 0]"
    "vertexBowtie st4 = replicate 5 False" "b_msgs st4 = None" "b_result st4"
    by (simp_all add: st4_def fs st3_def st2_def st1_def st0)
  have fin: "bowtie_faces spec_orbit M 65537 5 65537 os = Some (Next os)" for os
    by (subst bowtie_faces.simps) simp
  show ?thesis
  proof (cases "(of_nat 65536 :: 'a word) = 0")
    case True
    define st5 where "st5 = st4\<lparr>faceSeen := (faceSeen st4)[196608 := True]\<rparr>"
    define st6 where "st6 = st5\<lparr>faceSeen := (faceSeen st5)[196609 := True],
      faceIds := (faceIds st5)[3 := of_nat 65536], faceUsing := (faceUsing st5)[3 := of_nat 65536]\<rparr>"
    define st7 where "st7 = st6\<lparr>faceSeen := (faceSeen st6)[196610 := True],
      faceIds := (faceIds st6)[4 := of_nat 65536], faceUsing := (faceUsing st6)[4 := of_nat 65536]\<rparr>"
    from bowtie_point_isolated [of s3 adj M 65537 65536 0 st4 5] True
    obtain s5 where s5: "o_adjacency s5 = adj" "o_indices s5 = M" "o_nFaces s5 = 65537"
      and p5: "bowtie_point spec_orbit M 65537 5 65536 0 (s3, st4) = Some (Next (s5, st5))"
      by (auto simp: s3 m fc adj st4 st5_def u)
    from bowtie_point_isolated [of s5 adj M 65537 65536 1 st5 5] True
    obtain s6 where s6: "o_adjacency s6 = adj" "o_indices s6 = M" "o_nFaces s6 = 65537"
      and p6: "bowtie_point spec_orbit M 65537 5 65536 1 (s5, st5) = Some (Next (s6, st6))"
      by (auto simp: s5 m fc adj st4 st5_def st6_def u)
    from bowtie_point_isolated [of s6 adj M 65537 65536 2 st6 5] True
    obtain s7 where s7: "o_adjacency s7 = adj" "o_indices s7 = M" "o_nFaces s7 = 65537"
      and p7: "bowtie_point spec_orbit M 65537 5 65536 2 (s6, st6) = Some (Next (s7, st7))"
      by (auto simp: s6 m fc adj st4 st5_def st6_def st7_def u)
    have "bowtie_faces spec_orbit M 65537 5 65536 (s3, st4) = Some (Next (s7, st7))"
      by (subst bowtie_faces.simps) (simp add: nd1 bowtie_points_three [OF p5 p6 p7] fin)
    then have "bowtie_faces spec_orbit M 65537 5 0 (s0, st0) = Some (Next (s7, st7))"
      unfolding f0 f1 st4_def .
    moreover have "b_result st7" "b_msgs st7 = None"
      by (simp_all add: st7_def st6_def st5_def st4)
    ultimately show ?thesis
      using True by (simp add: bowtie_finish_def s0_def st0_def adj_def)
  next
    case False
    from bowtie_point_isolated [of s3 adj M 65537 65536 0 st4 5] False
    have p5: "bowtie_point spec_orbit M 65537 5 65536 0 (s3, st4) =
        Some (Exit (Returns E_FAIL None))"
      by (auto simp: s3 m fc adj st4 u)
    have "bowtie_points spec_orbit M 65537 5 65536 0 (s3, st4) =
        Some (Exit (Returns E_FAIL None))"
      by (subst bowtie_points.simps) (simp add: p5)
    then have "bowtie_faces spec_orbit M 65537 5 65536 (s3, st4) =
        Some (Exit (Returns E_FAIL None))"
      by (subst bowtie_faces.simps) (simp add: nd1)
    then have "bowtie_faces spec_orbit M 65537 5 0 (s0, st0) =
        Some (Exit (Returns E_FAIL None))"
      unfolding f0 f1 st4_def .
    then show ?thesis
      using False by (simp add: bowtie_finish_def s0_def st0_def adj_def)
  qed
qed


lemma far_faces_Validate:
  fixes M :: "'a::len word list"
  assumes M: "M = [v0, v1, v2] @ replicate 196605 v0 @ [v0, v3, v4]"
    and u: "unat v0 = 0" "unat v1 = 1" "unat v2 = 2" "unat v3 = 3" "unat v4 = 4"
    and room: "tables_size M 65537 5 \<le> tsize M 65537 5"
  shows "Validate spec_orbit (\<lambda>n. True) (Some M) 65537 5 (Some (replicate 196611 UNUSED32))
       VALIDATE_BOWTIES None =
     Some (Returns (if (of_nat 65536 :: 'a word) = 0 then S_OK else E_FAIL) None)"
proof -
  let ?adj = "Some (replicate 196611 UNUSED32)"
  have "set M \<subseteq> {v0, v1, v2, v3, v4}"
    by (auto simp: M)
  then have low: "unat (M ! i) < 5" if "i < 196611" for i
  proof -
    have "M ! i \<in> set M" using that by (intro nth_mem) (simp add: M)
    then have "M ! i \<in> {v0, v1, v2, v3, v4}"
      using \<open>set M \<subseteq> {v0, v1, v2, v3, v4}\<close> by blast
    then show ?thesis using u by auto
  qed
  have flags: "\<not> flag_set VALIDATE_BOWTIES VALIDATE_BACKFACING"
    "\<not> flag_set VALIDATE_BOWTIES VALIDATE_DEGENERATE" "flag_set VALIDATE_BOWTIES VALIDATE_BOWTIES"
    by (simp_all add: flag_set_def VALIDATE_BOWTIES_def VALIDATE_BACKFACING_def
        VALIDATE_DEGENERATE_def)
  have "spec_face_violations M 65537 5 ?adj VALIDATE_BOWTIES face = []" if "face < 65537" for face
    using that
    by (simp add: spec_face_violations_def spec_corner_violations_def flags low Let_def)
  then have "spec_violations M 65537 5 ?adj VALIDATE_BOWTIES = []"
    by (simp add: spec_violations_Nil)
  then have vi: "ValidateIndices M 65537 5 ?adj VALIDATE_BOWTIES None = (S_OK, None)"
    by (simp add: ValidateIndices_no_sink)
  have vb: "ValidateNoBowties spec_orbit (\<lambda>n. True) M 65537 5 ?adj None =
      Some (Returns (if (of_nat 65536 :: 'a word) = 0 then S_OK else E_FAIL) None)"
  proof -
    have c: "construct spec_orbit = (orbit_construct :: _ \<Rightarrow> 'a word list \<Rightarrow> _)"
      by (simp add: spec_orbit_def)
    show ?thesis
      unfolding ValidateNoBowties_def c using room far_faces_share_vertex [OF M u]
      by simp
  qed
  show ?thesis
    by (simp add: Validate_def vi vb flags FAILED_def Let_def)
qed

text \<open>
  Claim C8 fails on the code. The two entry points get the same mesh, the 16-bit indices
  widened value for value: 65537 faces on 5 vertices, face 0 on the vertices 0, 1, 2, the
  faces 1 to 65535 degenerate on vertex 0, face 65536 on the vertices 0, 3, 4, no face
  with a neighbor, the bowtie flag alone and no sink. Faces 0 and 65536 meet in vertex 0
  only: a bowtie. The tables \<open>faceIds\<close> and \<open>faceUsing\<close> hold face ids in entries of
  the index type (lines 165-166, 221-224). With 32-bit indices the owner \<open>0\<close> recorded for
  vertex 0 differs from face 65536 and the call returns \<open>E_FAIL\<close>; with 16-bit indices
  \<^verbatim>\<open>index_t( face )\<close> of face 65536 is \<open>0\<close>, the recorded owner, and the call returns
  \<open>S_OK\<close>.
\<close>

theorem face_ids_truncated:
  "Validate16 spec_orbit (\<lambda>n. True)
     (Some ([0, 1, 2] @ replicate 196605 0 @ [0, 3, 4]))
     65537 5 (Some (replicate 196611 UNUSED32)) VALIDATE_BOWTIES None
   = Some (Returns S_OK None) \<and>
   Validate32 spec_orbit (\<lambda>n. True)
     (Some (map widen ([0, 1, 2] @ replicate 196605 0 @ [0, 3, 4])))
     65537 5 (Some (replicate 196611 UNUSED32)) VALIDATE_BOWTIES None
   = Some (Returns E_FAIL None)"
proof -
  have "Validate spec_orbit (\<lambda>n. True)
     (Some ([0, 1, 2] @ replicate 196605 0 @ [0, 3, 4] :: uint16_t list))
     65537 5 (Some (replicate 196611 UNUSED32)) VALIDATE_BOWTIES None
   = Some (Returns (if (of_nat 65536 :: uint16_t) = 0 then S_OK else E_FAIL) None)"
    by (rule far_faces_Validate [OF refl]) (simp_all add: tsize_def tables_size_def)
  then have a: "Validate16 spec_orbit (\<lambda>n. True)
     (Some ([0, 1, 2] @ replicate 196605 0 @ [0, 3, 4]))
     65537 5 (Some (replicate 196611 UNUSED32)) VALIDATE_BOWTIES None
   = Some (Returns S_OK None)"
    by (simp add: Validate16_def)
  have w: "map widen ([0, 1, 2] @ replicate 196605 0 @ [0, 3, 4]) =
      [0, 1, 2] @ replicate 196605 0 @ [0, 3, 4]"
    by (simp add: widen_def)
  have "Validate spec_orbit (\<lambda>n. True)
     (Some ([0, 1, 2] @ replicate 196605 0 @ [0, 3, 4] :: uint32_t list))
     65537 5 (Some (replicate 196611 UNUSED32)) VALIDATE_BOWTIES None
   = Some (Returns (if (of_nat 65536 :: uint32_t) = 0 then S_OK else E_FAIL) None)"
    by (rule far_faces_Validate [OF refl]) (simp_all add: tsize_def tables_size_def)
  then have b: "Validate32 spec_orbit (\<lambda>n. True)
     (Some (map widen ([0, 1, 2] @ replicate 196605 0 @ [0, 3, 4])))
     65537 5 (Some (replicate 196611 UNUSED32)) VALIDATE_BOWTIES None
   = Some (Returns E_FAIL None)"
    unfolding w by (simp add: Validate32_def)
  show ?thesis using a b by (rule conjI)
qed

end
